theory Spec2Isabelle
  imports Complex_Main "HOL-Library.Word"
begin

section \<open>Post-processing of detector and segmenter outputs (Service/src/service.py)\<close>

text \<open>
  Numbers. The scores, box coordinates, thresholds and margins of the program are floating
  point values. They are modelled as \<^typ>\<open>real\<close>, without the rounding of the arithmetic
  operations: the properties below rest on comparison, \<open>min\<close>, \<open>max\<close> and the
  monotonicity of the arithmetic. The one conversion that decides an outcome is modelled: the
  Python float 0.8 is converted to single precision before it is compared with the float32
  scores. Pixel channels are unsigned 8-bit values, \<^typ>\<open>8 word\<close>.
\<close>

datatype error = IndexError | ValueError | UnboundLocalError | KeyError | TypeError | AttributeError

type_synonym box = "real \<times> real \<times> real \<times> real"

subsection \<open>Detection output and box aggregation\<close>

text \<open>One element of the detector's output: \<open>prediction['boxes']\<close> and \<open>prediction['scores']\<close>.\<close>

record prediction =
  boxes :: "box list"
  scores :: "real list"

definition STEPS_FOR_THRESHOLD :: "real list" where
  "STEPS_FOR_THRESHOLD = [8 / 10, 7 / 10, 6 / 10, 5 / 10]"

text \<open>Python's \<open>min\<close> and \<open>max\<close> of a list: \<open>ValueError\<close> on the empty list.\<close>

fun py_min :: "real list \<Rightarrow> error + real" where
  "py_min [] = Inl ValueError"
| "py_min (x # xs) = Inr (foldl min x xs)"

fun py_max :: "real list \<Rightarrow> error + real" where
  "py_max [] = Inl ValueError"
| "py_max (x # xs) = Inr (foldl max x xs)"

text \<open>
  The conversion of a number to single precision, \<open>np.float32(x)\<close>, in the normal range:
  24 significant bits, the nearest value, a tie to the even one.
\<close>

definition round_half_even :: "real \<Rightarrow> int" where
  "round_half_even y =
     (let n = \<lfloor>y\<rfloor>; f = y - of_int n
      in if f < 1 / 2 then n else if 1 / 2 < f then n + 1 else if even n then n else n + 1)"

definition float32_of :: "real \<Rightarrow> real" where
  "float32_of x =
     (if x = 0 then 0
      else (let e = \<lfloor>log 2 \<bar>x\<bar>\<rfloor>; ulp = 2 powr (of_int e - 23)
            in of_int (round_half_even (x / ulp)) * ulp))"

text \<open>
  \<open>np.where(pred_scores_numpy > m)[0]\<close>: the indices of the scores above \<open>m\<close>. The
  scores are a float32 array and \<open>m\<close> is a Python float: numpy converts \<open>m\<close> to float32
  and compares in single precision.
\<close>

definition np_where_gt :: "real list \<Rightarrow> real \<Rightarrow> nat list" where
  "np_where_gt xs m = filter (\<lambda>i. xs ! i > float32_of m) [0..<length xs]"

text \<open>
  The loop of lines 133 to 137 over the ladder. The state is \<open>ind_max\<close> (unbound before
  the first iteration) and, as a ghost value, the number of loop bodies executed so far.
  The loop variable is the head of the list; the body compares with
  \<open>max(STEPS_FOR_THRESHOLD)\<close>.
\<close>

fun ladder_loop :: "real list \<Rightarrow> real list \<Rightarrow> nat option \<times> nat \<Rightarrow> error + (nat option \<times> nat)" where
  "ladder_loop [] pred_scores st = Inr st"
| "ladder_loop (threshold # rest) pred_scores (old, steps) =
     (case py_max STEPS_FOR_THRESHOLD of
        Inl e \<Rightarrow> Inl e
      | Inr m \<Rightarrow>
          (let list_ind = np_where_gt pred_scores m;
               ind_max = length list_ind
           in if ind_max > 0 then Inr (Some ind_max, Suc steps)
              else ladder_loop rest pred_scores (Some ind_max, Suc steps)))"

text \<open>Lines 133 to 139: the loop, then the fallback to one box.\<close>

definition select_ind_max :: "real list \<Rightarrow> error + nat" where
  "select_ind_max pred_scores =
     (case ladder_loop STEPS_FOR_THRESHOLD pred_scores (None, 0) of
        Inl e \<Rightarrow> Inl e
      | Inr (None, _) \<Rightarrow> Inl UnboundLocalError
      | Inr (Some ind_max, _) \<Rightarrow> Inr (if ind_max = 0 then 1 else ind_max))"

text \<open>Lines 154 to 158: the margin \<open>k\<close>.\<close>

definition apply_margin :: "real \<Rightarrow> box \<Rightarrow> box" where
  "apply_margin k b =
     (case b of (rx1, ry1, rx2, ry2) \<Rightarrow>
        if k > 0 then (max (rx1 - k) 0, max (ry1 - k) 0, min (rx2 + k) 1, min (ry2 + k) 1)
        else (rx1, ry1, rx2, ry2))"

text \<open>
  The body of the loop over the predictions, lines 124 to 160. \<open>pred_scores[0]\<close> raises
  on an empty score tensor; the slice \<open>pred_boxs_numpy[:ind_max]\<close> is \<open>take\<close>. The
  division is the division of the reals: the model input shape is positive in every call.
\<close>

definition pred_boxs_good :: "prediction \<Rightarrow> nat \<Rightarrow> box list" where
  "pred_boxs_good prediction ind_max = take ind_max (boxes prediction)"

definition aggregate_prediction :: "real \<times> real \<Rightarrow> real \<Rightarrow> prediction \<Rightarrow> error + (box \<times> real)" where
  "aggregate_prediction model_shape k prediction =
     (case scores prediction of
        [] \<Rightarrow> Inl IndexError
      | pred_score # _ \<Rightarrow>
          (case select_ind_max (scores prediction) of
             Inl e \<Rightarrow> Inl e
           | Inr ind_max \<Rightarrow>
               (let good = pred_boxs_good prediction ind_max in
                case py_min (map (\<lambda>(x1, y1, x2, y2). x1) good) of Inl e \<Rightarrow> Inl e | Inr best_x1 \<Rightarrow>
                case py_min (map (\<lambda>(x1, y1, x2, y2). y1) good) of Inl e \<Rightarrow> Inl e | Inr best_y1 \<Rightarrow>
                case py_max (map (\<lambda>(x1, y1, x2, y2). x2) good) of Inl e \<Rightarrow> Inl e | Inr best_x2 \<Rightarrow>
                case py_max (map (\<lambda>(x1, y1, x2, y2). y2) good) of Inl e \<Rightarrow> Inl e | Inr best_y2 \<Rightarrow>
                  Inr (apply_margin k
                         (best_x1 / fst model_shape, best_y1 / snd model_shape,
                          best_x2 / fst model_shape, best_y2 / snd model_shape),
                       pred_score))))"

text \<open>The loop over the predictions: the first exception ends the call.\<close>

fun aggregate_all :: "real \<times> real \<Rightarrow> real \<Rightarrow> prediction list \<Rightarrow> error + (box \<times> real) list" where
  "aggregate_all model_shape k [] = Inr []"
| "aggregate_all model_shape k (p # ps) =
     (case aggregate_prediction model_shape k p of
        Inl e \<Rightarrow> Inl e
      | Inr r \<Rightarrow> (case aggregate_all model_shape k ps of Inl e \<Rightarrow> Inl e | Inr rs \<Rightarrow> Inr (r # rs)))"

text \<open>
  \<open>jewellery_detection_get_rx_ry\<close>, with the detector's output for the batch as the
  argument \<open>predictions\<close>.
\<close>

definition jewellery_detection_get_rx_ry ::
  "prediction list \<Rightarrow> real \<times> real \<Rightarrow> real \<Rightarrow> error + (box \<times> real) list" where
  "jewellery_detection_get_rx_ry predictions model_shape k = aggregate_all model_shape k predictions"


subsection \<open>Images and the store of image objects\<close>

text \<open>
  A PIL image: its \<open>size\<close> (width, height) and its bands, one list of pixel values per band
  in row-major order. One band is mode L, two LA, three RGB, four RGBA;
  \<open>np.array(image)[:, :, c]\<close> is band \<open>c\<close>.

  Image objects are mutable and shared by reference. The store is the list of the objects
  allocated so far, a reference is an index into it, and a new object is appended.
\<close>

record image =
  isize :: "nat \<times> nat"
  bands :: "8 word list list"

type_synonym ref = nat
type_synonym store = "image list"

definition alloc :: "store \<Rightarrow> image \<Rightarrow> ref \<times> store" where
  "alloc h img = (length h, h @ [img])"

text \<open>
  The operations of the imaging library whose pixel arithmetic the program does not fix are
  parameters: resampling to a size, cropping to a box, the Gaussian blur of a radius, and the
  blend of two channel values under a mask value.
\<close>

record pil =
  pil_resize :: "image \<Rightarrow> nat \<times> nat \<Rightarrow> image"
  pil_crop :: "image \<Rightarrow> box \<Rightarrow> image"
  pil_gaussian_blur :: "real \<Rightarrow> image \<Rightarrow> image"
  pil_blend :: "8 word \<Rightarrow> 8 word \<Rightarrow> 8 word \<Rightarrow> 8 word"

text \<open>
  What the library documents of them: \<open>resize\<close> returns an image of the requested size and
  of the mode of its input; a blur of radius at least 0 keeps size and mode.
\<close>

definition pil_contract :: "pil \<Rightarrow> bool" where
  "pil_contract L \<longleftrightarrow>
     (\<forall>m sz. isize (pil_resize L m sz) = sz \<and> length (bands (pil_resize L m sz)) = length (bands m)) \<and>
     (\<forall>r img. 0 \<le> r \<longrightarrow> isize (pil_gaussian_blur L r img) = isize img \<and>
                length (bands (pil_gaussian_blur L r img)) = length (bands img))"

text \<open>
  \<open>Image.putalpha(alpha)\<close> changes the image it is called on: the alpha band is replaced
  when there is one (LA, RGBA) and added otherwise. The alpha image must be of mode L and of
  the same size.
\<close>

definition putalpha :: "image \<Rightarrow> image \<Rightarrow> error + image" where
  "putalpha im alpha =
     (if length (bands alpha) \<noteq> 1 then Inl ValueError
      else if isize alpha \<noteq> isize im then Inl ValueError
      else Inr (im\<lparr>bands :=
             (if length (bands im) = 2 \<or> length (bands im) = 4
              then (bands im)[length (bands im) - 1 := hd (bands alpha)]
              else bands im @ [hd (bands alpha)])\<rparr>))"

text \<open>\<open>Image.convert('RGB')\<close>: the colour bands without alpha; a grey band three times.\<close>

definition convert_RGB :: "image \<Rightarrow> image" where
  "convert_RGB im =
     im\<lparr>bands := (if 3 \<le> length (bands im) then take 3 (bands im)
                   else [hd (bands im), hd (bands im), hd (bands im)])\<rparr>"

text \<open>
  \<open>Image.composite(image1, image2, mask)\<close>: a copy of \<open>image2\<close> with \<open>image1\<close> pasted
  through the mask. The images must agree in mode and size, the mask in size; the mask is the
  band of an L image or the alpha band of an LA or RGBA image.
\<close>

definition composite :: "pil \<Rightarrow> image \<Rightarrow> image \<Rightarrow> image \<Rightarrow> error + image" where
  "composite L image1 image2 mask_image =
     (if isize image1 \<noteq> isize image2 \<or> length (bands image1) \<noteq> length (bands image2) then Inl ValueError
      else if isize mask_image \<noteq> isize image2 \<or> length (bands mask_image) \<notin> {1, 2, 4} then Inl ValueError
      else Inr (image2\<lparr>bands :=
             map2 (\<lambda>b1 b2. map (\<lambda>(m, p1, p2). pil_blend L m p1 p2) (zip (last (bands mask_image)) (zip b1 b2)))
               (bands image1) (bands image2)\<rparr>))"

subsection \<open>Cropping\<close>

text \<open>\<open>crop_image\<close>: the relative box scaled by the size of this image; a new image.\<close>

definition crop_image :: "pil \<Rightarrow> store \<Rightarrow> ref \<Rightarrow> box \<Rightarrow> ref \<times> store" where
  "crop_image L h img rbox =
     (case rbox of (r0, r1, r2, r3) \<Rightarrow>
        (let image_shape = isize (h ! img);
             x1 = real (fst image_shape) * r0;
             y1 = real (snd image_shape) * r1;
             x2 = real (fst image_shape) * r2;
             y2 = real (snd image_shape) * r3
         in alloc h (pil_crop L (h ! img) (x1, y1, x2, y2))))"

subsection \<open>Segmentation output\<close>

text \<open>
  One element of the segmenter's output: \<open>prediction['scores']\<close> and
  \<open>prediction['masks']\<close>, each mask given as the L image that \<open>ToPILImage\<close> makes of it.
\<close>

record seg_prediction =
  seg_scores :: "real list"
  seg_masks :: "image list"

type_synonym mask_result = "ref option \<times> real option"

text \<open>
  The loop inside the \<open>try\<close> of \<open>jewellery_mask\<close>, lines 202 to 205. Element 0 of an
  empty score or mask tensor raises. The exception, when there is one, is returned with the
  results appended before it.
\<close>

fun mask_loop :: "store \<Rightarrow> seg_prediction list \<Rightarrow> mask_result list \<Rightarrow> error option \<times> mask_result list \<times> store" where
  "mask_loop h [] result = (None, result, h)"
| "mask_loop h (prediction # rest) result =
     (case seg_scores prediction of
        [] \<Rightarrow> (Some IndexError, result, h)
      | pred_score # _ \<Rightarrow>
          (case seg_masks prediction of
             [] \<Rightarrow> (Some IndexError, result, h)
           | m # _ \<Rightarrow>
               (case alloc h m of (pred_mask, h') \<Rightarrow>
                  mask_loop h' rest (result @ [(Some pred_mask, Some pred_score)]))))"

text \<open>
  \<open>jewellery_mask\<close>, with the segmenter's output as the argument. The \<open>try\<close> encloses the
  whole loop: the handler appends one pair of \<open>None\<close> and the function returns.
\<close>

definition jewellery_mask :: "store \<Rightarrow> seg_prediction list \<Rightarrow> mask_result list \<times> store" where
  "jewellery_mask h predictions =
     (case mask_loop h predictions [] of
        (None, result, h') \<Rightarrow> (result, h')
      | (Some e, result, h') \<Rightarrow> (result @ [(None, None)], h'))"

subsection \<open>Mask clean-up\<close>

text \<open>\<open>np.clip(x, a_min, a_max)\<close> is \<open>minimum(a_max, maximum(x, a_min))\<close>.\<close>

definition np_clip :: "real \<Rightarrow> real \<Rightarrow> real \<Rightarrow> real" where
  "np_clip x a_min a_max = min a_max (max x a_min)"

text \<open>
  Storing a float into a \<open>uint8\<close> array drops the fraction (rounding towards zero). For a
  float outside 0 to 255 the stored value depends on the platform; here it wraps around.
\<close>

definition uint8_of_float :: "real \<Rightarrow> 8 word" where
  "uint8_of_float v = word_of_int (if 0 \<le> v then \<lfloor>v\<rfloor> else \<lceil>v\<rceil>)"

text \<open>Lines 230 to 232 at one pixel.\<close>

definition clean_alpha :: "real \<Rightarrow> real \<Rightarrow> 8 word \<Rightarrow> 8 word" where
  "clean_alpha r min_blur a =
     (let x = real (unat a) / 255 + (r - 5 / 10);
          x = np_clip x min_blur 1
      in uint8_of_float (x * 255))"

text \<open>
  \<open>clean_image_with_mask\<close>. Without a threshold the argument itself is returned.
  Otherwise \<open>np.array(image)\<close> copies the pixel data, band 3 of the copy is rewritten (an
  image with fewer than four bands has no index 3) and \<open>Image.fromarray\<close> makes a new image.
\<close>

definition clean_image_with_mask :: "store \<Rightarrow> ref \<Rightarrow> real option \<Rightarrow> real \<Rightarrow> error + (ref \<times> store)" where
  "clean_image_with_mask h img r min_blur =
     (case r of
        None \<Rightarrow> Inr (img, h)
      | Some r' \<Rightarrow>
          (let arr = h ! img in
           if length (bands arr) < 4 then Inl IndexError
           else (let x = map (clean_alpha r' min_blur) (bands arr ! 3)
                 in Inr (alloc h (arr\<lparr>bands := (bands arr)[3 := x]\<rparr>)))))"

subsection \<open>Detection, crop and segmentation together\<close>

text \<open>The values of the result dictionaries: \<open>None\<close>, an image object, a float.\<close>

datatype pyval = PyNone | Img ref | Float real

type_synonym dict = "string \<rightharpoonup> pyval"

text \<open>Lines 254 to 258: the crops and the detection confidences, by index.\<close>

fun crop_loop :: "pil \<Rightarrow> ref list \<Rightarrow> (box \<times> real) list \<Rightarrow> nat list \<Rightarrow> ref list \<times> real list \<times> store
    \<Rightarrow> error + (ref list \<times> real list \<times> store)" where
  "crop_loop L images rboxes [] st = Inr st"
| "crop_loop L images rboxes (k # ks) (cropped_images, detect_acc, h) =
     (if length rboxes \<le> k then Inl IndexError
      else (case rboxes ! k of (rbox, acc) \<Rightarrow>
        if length images \<le> k then Inl IndexError
        else (case crop_image L h (images ! k) rbox of (cropped_image, h') \<Rightarrow>
          crop_loop L images rboxes ks (cropped_images @ [cropped_image], detect_acc @ [acc], h'))))"

text \<open>Lines 263 to 270: one dictionary per index.\<close>

definition of_opt_img :: "ref option \<Rightarrow> pyval" where
  "of_opt_img m = (case m of None \<Rightarrow> PyNone | Some i \<Rightarrow> Img i)"

definition of_opt_float :: "real option \<Rightarrow> pyval" where
  "of_opt_float x = (case x of None \<Rightarrow> PyNone | Some a \<Rightarrow> Float a)"

definition result_entry :: "ref list \<Rightarrow> real list \<Rightarrow> mask_result list \<Rightarrow> nat \<Rightarrow> dict" where
  "result_entry cropped_images detect_acc masks k =
     Map.empty
       (''cropped_image'' \<mapsto> Img (cropped_images ! k),
        ''detection_accurancy'' \<mapsto> Float (detect_acc ! k),
        ''mask'' \<mapsto> of_opt_img (fst (masks ! k)),
        ''segmentation_accurancy'' \<mapsto> of_opt_float (snd (masks ! k)))"

fun result_loop :: "ref list \<Rightarrow> real list \<Rightarrow> mask_result list \<Rightarrow> nat list \<Rightarrow> dict list \<Rightarrow> error + dict list" where
  "result_loop cropped_images detect_acc masks [] result = Inr result"
| "result_loop cropped_images detect_acc masks (k # ks) result =
     (if length cropped_images \<le> k \<or> length detect_acc \<le> k \<or> length masks \<le> k then Inl IndexError
      else result_loop cropped_images detect_acc masks ks
             (result @ [result_entry cropped_images detect_acc masks k]))"

text \<open>
  \<open>jewellery_detect_crop_mask\<close>. The two models are functions from the batch of images they
  are given to their output.
\<close>

definition jewellery_detect_crop_mask ::
  "pil \<Rightarrow> store \<Rightarrow> ref list \<Rightarrow> (image list \<Rightarrow> prediction list) \<Rightarrow> (image list \<Rightarrow> seg_prediction list)
    \<Rightarrow> real \<times> real \<Rightarrow> real \<Rightarrow> error + (dict list \<times> store)" where
  "jewellery_detect_crop_mask L h images model_detection model_mask model_shape k =
     (case jewellery_detection_get_rx_ry (model_detection (map ((!) h) images)) model_shape k of
        Inl e \<Rightarrow> Inl e
      | Inr rboxes \<Rightarrow>
          (let rows = length rboxes in
           case crop_loop L images rboxes [0..<rows] ([], [], h) of
             Inl e \<Rightarrow> Inl e
           | Inr (cropped_images, detect_acc, h1) \<Rightarrow>
               (case jewellery_mask h1 (model_mask (map ((!) h1) cropped_images)) of (masks, h2) \<Rightarrow>
                  (case result_loop cropped_images detect_acc masks [0..<rows] [] of
                     Inl e \<Rightarrow> Inl e
                   | Inr result \<Rightarrow> Inr (result, h2)))))"

subsection \<open>The pipeline with its settings\<close>

record config =
  threshold_detect :: real
  threshold_segmentation :: real
  threshold_clean_mask :: "real option"
  show_bad_results :: bool
  min_blur :: real
  gaussian_blur :: real

text \<open>
  Lines 308 to 316 for one item: the copy of the crop, the alpha put on the copy, the clean-up,
  the RGB image, its blur and the composite.
\<close>

definition compose_item :: "pil \<Rightarrow> config \<Rightarrow> store \<Rightarrow> ref \<Rightarrow> ref \<Rightarrow> error + (ref \<times> store)" where
  "compose_item L C h cropped_image mask_image =
     (case alloc h (h ! cropped_image) of (q, h1) \<Rightarrow>
      case alloc h1 (pil_resize L (h1 ! mask_image) (isize (h1 ! cropped_image))) of (alpha, h2) \<Rightarrow>
      case putalpha (h2 ! q) (h2 ! alpha) of Inl e \<Rightarrow> Inl e | Inr q' \<Rightarrow>
      case clean_image_with_mask (h2[q := q']) q (threshold_clean_mask C) (min_blur C) of
        Inl e \<Rightarrow> Inl e
      | Inr (q_clean, h4) \<Rightarrow>
      case alloc h4 (convert_RGB (h4 ! q_clean)) of (rgb, h5) \<Rightarrow>
      case alloc h5 (pil_gaussian_blur L (gaussian_blur C) (h5 ! rgb)) of (blurred, h6) \<Rightarrow>
      case alloc h6 (pil_resize L (h6 ! mask_image) (isize (h6 ! cropped_image))) of (blend_mask, h7) \<Rightarrow>
      case composite L (h7 ! rgb) (h7 ! blurred) (h7 ! blend_mask) of Inl e \<Rightarrow> Inl e | Inr out \<Rightarrow>
        Inr (alloc h7 out))"

text \<open>Reading an entry of a dictionary as an image or as a float.\<close>

definition get_img :: "dict \<Rightarrow> string \<Rightarrow> error + ref" where
  "get_img d key = (case d key of None \<Rightarrow> Inl KeyError | Some (Img i) \<Rightarrow> Inr i | Some _ \<Rightarrow> Inl AttributeError)"

definition get_float :: "dict \<Rightarrow> string \<Rightarrow> error + real" where
  "get_float d key = (case d key of None \<Rightarrow> Inl KeyError | Some (Float a) \<Rightarrow> Inr a | Some _ \<Rightarrow> Inl TypeError)"

text \<open>
  The body of the loop of \<open>get_jewellery_image_\<close>, lines 306 to 326, on \<open>predict[k]\<close>.
  The entry \<open>cropped_image\<close> is read first (line 310), then the mask is used (line 311).
\<close>

definition process_item :: "pil \<Rightarrow> config \<Rightarrow> store \<Rightarrow> dict \<Rightarrow> ref \<Rightarrow> error + (dict \<times> store)" where
  "process_item L C h d image_original =
     (case d ''mask'' of
        None \<Rightarrow> Inl KeyError
      | Some PyNone \<Rightarrow> Inr (d, h)
      | Some _ \<Rightarrow>
         (case get_img d ''cropped_image'' of Inl e \<Rightarrow> Inl e | Inr cropped_image \<Rightarrow>
          case get_img d ''mask'' of Inl e \<Rightarrow> Inl e | Inr mask_image \<Rightarrow>
          case compose_item L C h cropped_image mask_image of Inl e \<Rightarrow> Inl e | Inr (q_clean, h') \<Rightarrow>
          (let d1 = d(''image_segmented'' \<mapsto> Img q_clean) in
           case get_float d1 ''detection_accurancy'' of Inl e \<Rightarrow> Inl e | Inr det \<Rightarrow>
           (let d2 = (if det < threshold_detect C \<and> \<not> show_bad_results C
                      then d1(''cropped_image'' \<mapsto> PyNone) else d1) in
            case get_float d2 ''segmentation_accurancy'' of Inl e \<Rightarrow> Inl e | Inr seg \<Rightarrow>
            (let d3 = (if seg < threshold_segmentation C \<and> \<not> show_bad_results C
                       then d2(''image_segmented'' \<mapsto> PyNone) else d2)
             in Inr (d3(''image_original'' \<mapsto> Img image_original), h'))))))"

text \<open>The loop of lines 305 to 326 over the indices.\<close>

fun item_loop :: "pil \<Rightarrow> config \<Rightarrow> ref list \<Rightarrow> nat list \<Rightarrow> dict list \<times> store \<Rightarrow> error + (dict list \<times> store)" where
  "item_loop L C images_original [] st = Inr st"
| "item_loop L C images_original (k # ks) (predict, h) =
     (if length predict \<le> k \<or> length images_original \<le> k then Inl IndexError
      else (case process_item L C h (predict ! k) (images_original ! k) of
              Inl e \<Rightarrow> Inl e
            | Inr (d, h') \<Rightarrow> item_loop L C images_original ks (predict[k := d], h')))"

text \<open>
  \<open>get_jewellery_image_\<close> of the source (a name cannot end with an underscore here).
\<close>

definition get_jewellery_image_impl ::
  "pil \<Rightarrow> store \<Rightarrow> ref list \<Rightarrow> (image list \<Rightarrow> prediction list) \<Rightarrow> (image list \<Rightarrow> seg_prediction list)
    \<Rightarrow> real \<times> real \<Rightarrow> real \<Rightarrow> config \<Rightarrow> error + (dict list \<times> store)" where
  "get_jewellery_image_impl L h images_original model_detection model_mask model_shape k C =
     (case jewellery_detect_crop_mask L h images_original model_detection model_mask model_shape k of
        Inl e \<Rightarrow> Inl e
      | Inr (predict, h1) \<Rightarrow>
          item_loop L C images_original [0..<length images_original] (predict, h1))"

subsection \<open>Stores that only grow\<close>

text \<open>
  \<open>store_extends h h'\<close>: every object of \<open>h\<close> is in \<open>h'\<close> at the same reference and
  with the same size and pixel data; \<open>h'\<close> may hold more objects.
\<close>

definition store_extends :: "store \<Rightarrow> store \<Rightarrow> bool" where
  "store_extends h h' \<longleftrightarrow> length h \<le> length h' \<and> take (length h) h' = h"

subsection \<open>Concrete inputs for the examples\<close>

text \<open>
  An imaging library with the simplest operations of the right shape, a one-pixel RGB image, a
  one-pixel mask, a detector that finds one box of score 0.5 in every image, and the settings of
  a call with \<open>show_bad_results=False\<close> and the defaults otherwise.
\<close>

abbreviation example_pil :: pil where
  "example_pil \<equiv> \<lparr>pil_resize = (\<lambda>m sz. m\<lparr>isize := sz\<rparr>), pil_crop = (\<lambda>im b. im),
     pil_gaussian_blur = (\<lambda>r im. im), pil_blend = (\<lambda>m p1 p2. if m = 0 then p2 else p1)\<rparr>"

abbreviation example_image :: image where
  "example_image \<equiv> \<lparr>isize = (1, 1), bands = [[10], [20], [30]]\<rparr>"

abbreviation example_mask :: image where
  "example_mask \<equiv> \<lparr>isize = (1, 1), bands = [[200]]\<rparr>"

abbreviation example_detector :: "image list \<Rightarrow> prediction list" where
  "example_detector \<equiv> map (\<lambda>im. \<lparr>boxes = [(0, 0, 384, 384)], scores = [5 / 10]\<rparr>)"

abbreviation example_config :: config where
  "example_config \<equiv> \<lparr>threshold_detect = 98 / 100, threshold_segmentation = 99 / 100,
     threshold_clean_mask = Some (9 / 10), show_bad_results = False, min_blur = 1 / 10,
     gaussian_blur = 20\<rparr>"

subsection \<open>The selection and the merged box as the specification words them\<close>

text \<open>The count of scores strictly greater than \<open>m\<close>.\<close>

definition count_gt :: "real \<Rightarrow> real list \<Rightarrow> nat" where
  "count_gt m xs = length (filter (\<lambda>s. m < s) xs)"

text \<open>The number of boxes to merge: the count above 0.8, or one box when that count is zero.\<close>

definition selected_count :: "real list \<Rightarrow> nat" where
  "selected_count xs = (if 0 < count_gt (8 / 10) xs then count_gt (8 / 10) xs else 1)"

text \<open>The same with 0.8 in single precision, the number line 134 compares the scores with.\<close>

definition selected_count_float32 :: "real list \<Rightarrow> nat" where
  "selected_count_float32 xs =
     (if 0 < count_gt (float32_of (8 / 10)) xs then count_gt (float32_of (8 / 10)) xs else 1)"

text \<open>The union bounding box of a non-empty list of boxes.\<close>

definition union_box :: "box list \<Rightarrow> box" where
  "union_box bs =
     (Min ((\<lambda>(x1, y1, x2, y2). x1) ` set bs), Min ((\<lambda>(x1, y1, x2, y2). y1) ` set bs),
      Max ((\<lambda>(x1, y1, x2, y2). x2) ` set bs), Max ((\<lambda>(x1, y1, x2, y2). y2) ` set bs))"

definition normalise_box :: "real \<times> real \<Rightarrow> box \<Rightarrow> box" where
  "normalise_box model_shape b =
     (case b of (x1, y1, x2, y2) \<Rightarrow>
        (x1 / fst model_shape, y1 / snd model_shape, x2 / fst model_shape, y2 / snd model_shape))"

section \<open>Properties of the box aggregation\<close>

lemma py_max_steps: "py_max STEPS_FOR_THRESHOLD = Inr (8 / 10)"
  by (simp add: STEPS_FOR_THRESHOLD_def)

text \<open>0.8 in single precision is \<open>13421773 / 2 ^ 24\<close>, a little above 0.8.\<close>

lemma floor_log2_threshold: "\<lfloor>log 2 (8 / 10 :: real)\<rfloor> = - 1"
proof (rule floor_unique)
  have "(2 :: real) powr (- 1) \<le> 8 / 10" by (simp add: powr_minus)
  then show "of_int (- 1) \<le> log 2 (8 / 10 :: real)"
    by (simp add: le_log_iff)
  show "log 2 (8 / 10 :: real) < of_int (- 1) + 1" by simp
qed

lemma ulp_threshold: "(2 :: real) powr (of_int (- 1) - 23) = 1 / 16777216"
proof -
  have "(2 :: real) powr (of_int (- 1) - 23) = 2 powr (- 24)" by simp
  also have "\<dots> = 1 / 2 powr 24" by (rule powr_minus_divide)
  also have "(2 :: real) powr 24 = 2 ^ 24" by (rule powr_numeral) simp
  finally show ?thesis by simp
qed

lemma float32_of_threshold: "float32_of (8 / 10) = 13421773 / 16777216"
proof -
  have r: "round_half_even (67108864 / 5 :: real) = 13421773"
    by (simp add: round_half_even_def Let_def)
  have a: "\<bar>8 / 10 :: real\<bar> = 8 / 10" by simp
  show ?thesis
    unfolding float32_of_def Let_def a floor_log2_threshold ulp_threshold
    using r by simp
qed

lemma float32_of_threshold_simp: "float32_of (4 / 5) = 13421773 / 16777216"
  using float32_of_threshold by simp

lemma length_np_where_gt: "length (np_where_gt xs m) = count_gt (float32_of m) xs"
proof -
  have "filter (\<lambda>s. float32_of m < s) xs
      = map ((!) xs) (filter (\<lambda>i. xs ! i > float32_of m) [0..<length xs])"
    by (metis (no_types, lifting) filter_map map_nth comp_def filter_cong)
  then show ?thesis by (simp add: np_where_gt_def count_gt_def)
qed

lemma np_where_gt_Nil: "np_where_gt xs m = [] \<longleftrightarrow> count_gt (float32_of m) xs = 0"
  using length_np_where_gt [of xs m] by (metis length_0_conv)

lemma ladder_loop_pos:
  assumes "py_max STEPS_FOR_THRESHOLD = Inr m" and "0 < count_gt (float32_of m) xs"
  shows "ladder_loop (t # ts) xs (old, n) = Inr (Some (count_gt (float32_of m) xs), Suc n)"
  using assms by (simp add: length_np_where_gt np_where_gt_Nil Let_def)

lemma ladder_loop_zero:
  assumes "py_max STEPS_FOR_THRESHOLD = Inr m" and "count_gt (float32_of m) xs = 0"
  shows "ladder_loop (t # ts) xs (old, n) = Inr (Some 0, Suc n + length ts)"
proof (induction ts arbitrary: t old n)
  case Nil
  from assms show ?case by (simp add: length_np_where_gt np_where_gt_Nil Let_def)
next
  case (Cons a ts)
  have "ladder_loop (t # a # ts) xs (old, n) = ladder_loop (a # ts) xs (Some 0, Suc n)"
    using assms by (simp add: length_np_where_gt np_where_gt_Nil Let_def)
  also have "\<dots> = Inr (Some 0, Suc (Suc n) + length ts)"
    by (rule Cons.IH)
  finally show ?case by simp
qed

lemma ladder_loop_steps:
  "ladder_loop STEPS_FOR_THRESHOLD xs (None, 0) =
     Inr (Some (count_gt (float32_of (8 / 10)) xs),
          if 0 < count_gt (float32_of (8 / 10)) xs then 1 else 4)"
proof (cases "count_gt (float32_of (8 / 10)) xs = 0")
  case True
  from ladder_loop_zero [OF py_max_steps True, of "8 / 10" "[7 / 10, 6 / 10, 5 / 10]" None 0] True
  show ?thesis unfolding STEPS_FOR_THRESHOLD_def by simp
next
  case False
  then have pos: "0 < count_gt (float32_of (8 / 10)) xs" by simp
  from ladder_loop_pos [OF py_max_steps pos, of "8 / 10" "[7 / 10, 6 / 10, 5 / 10]" None 0] pos
  show ?thesis unfolding STEPS_FOR_THRESHOLD_def by simp
qed

lemma ladder_loop_any_ladder:
  assumes "ts \<noteq> []"
  shows "\<exists>steps. ladder_loop ts xs (None, 0) = Inr (Some (count_gt (float32_of (8 / 10)) xs), steps)"
proof -
  from assms obtain t rest where ts: "ts = t # rest" by (cases ts) auto
  show ?thesis
  proof (cases "count_gt (float32_of (8 / 10)) xs = 0")
    case True
    from ladder_loop_zero [OF py_max_steps True, of t rest None 0] True ts
    show ?thesis by simp
  next
    case False
    then have pos: "0 < count_gt (float32_of (8 / 10)) xs" by simp
    from ladder_loop_pos [OF py_max_steps pos, of t rest None 0] ts
    show ?thesis by simp
  qed
qed

lemma select_ind_max_eq: "select_ind_max xs = Inr (selected_count_float32 xs)"
  by (simp add: select_ind_max_def ladder_loop_steps selected_count_float32_def)

lemma count_gt_le_length: "count_gt m xs \<le> length xs"
  by (simp add: count_gt_def)

lemma selected_count_float32_bounds:
  "xs \<noteq> [] \<Longrightarrow> 0 < selected_count_float32 xs \<and> selected_count_float32 xs \<le> length xs"
  using count_gt_le_length [of "float32_of (8 / 10)" xs]
  by (cases xs) (auto simp: selected_count_float32_def)

text \<open>Away from the two numbers the count is the count above 0.8.\<close>

lemma count_gt_float32_threshold:
  assumes "\<forall>s \<in> set xs. s \<le> 8 / 10 \<or> float32_of (8 / 10) < s"
  shows "count_gt (float32_of (8 / 10)) xs = count_gt (8 / 10) xs"
proof -
  have "filter (\<lambda>s. float32_of (8 / 10) < s) xs = filter (\<lambda>s. 8 / 10 < s) xs"
  proof (rule filter_cong [OF refl])
    fix s assume "s \<in> set xs"
    with assms have "s \<le> 8 / 10 \<or> float32_of (8 / 10) < s" by blast
    then have "s \<le> 8 / 10 \<or> 13421773 / 16777216 < s"
      unfolding float32_of_threshold .
    then show "(float32_of (8 / 10) < s) = (8 / 10 < s)"
      unfolding float32_of_threshold by auto
  qed
  then show ?thesis by (simp add: count_gt_def)
qed

lemma py_min_Min: "xs \<noteq> [] \<Longrightarrow> py_min xs = Inr (Min (set xs))"
proof (cases xs)
  case (Cons a list)
  have "fold (\<lambda>x s. min s x) list a = fold min list a"
    by (rule arg_cong [where f = "\<lambda>f. fold f list a"]) (auto simp: fun_eq_iff min.commute)
  then show ?thesis
    unfolding Cons py_min.simps foldl_conv_fold Min.set_eq_fold by simp
qed simp

lemma py_max_Max: "xs \<noteq> [] \<Longrightarrow> py_max xs = Inr (Max (set xs))"
proof (cases xs)
  case (Cons a list)
  have "fold (\<lambda>x s. max s x) list a = fold max list a"
    by (rule arg_cong [where f = "\<lambda>f. fold f list a"]) (auto simp: fun_eq_iff max.commute)
  then show ?thesis
    unfolding Cons py_max.simps foldl_conv_fold Max.set_eq_fold by simp
qed simp

lemma pred_boxs_good_length:
  assumes "scores p \<noteq> []" and "length (boxes p) = length (scores p)"
  shows "length (pred_boxs_good p (selected_count_float32 (scores p))) = selected_count_float32 (scores p)"
  using selected_count_float32_bounds [OF assms(1)] assms(2) by (simp add: pred_boxs_good_def)

lemma aggregate_prediction_eq:
  assumes "scores p \<noteq> []" and "length (boxes p) = length (scores p)"
  shows "aggregate_prediction model_shape k p =
           Inr (apply_margin k (normalise_box model_shape
                  (union_box (pred_boxs_good p (selected_count_float32 (scores p))))),
                scores p ! 0)"
proof -
  from assms(1) obtain s ss where sc: "scores p = s # ss" by (cases "scores p") auto
  from pred_boxs_good_length [OF assms] selected_count_float32_bounds [OF assms(1)]
  have ne: "pred_boxs_good p (selected_count_float32 (s # ss)) \<noteq> []" unfolding sc by auto
  then show ?thesis
    unfolding aggregate_prediction_def select_ind_max_eq sc
    by (simp add: py_min_Min py_max_Max Let_def union_box_def normalise_box_def)
qed

section \<open>Properties of the mask clean-up\<close>

lemma unat_uint8_of_float:
  assumes "0 \<le> v" and "v \<le> 255"
  shows "unat (uint8_of_float v) = nat \<lfloor>v\<rfloor>"
proof -
  have "0 \<le> \<lfloor>v\<rfloor>" using assms(1) by simp
  moreover have "\<lfloor>v\<rfloor> < 256" using assms(2) by (simp add: floor_less_iff)
  ultimately have "uint (word_of_int \<lfloor>v\<rfloor> :: 8 word) = \<lfloor>v\<rfloor>"
    by (simp add: uint_word_of_int take_bit_eq_mod)
  then show ?thesis
    using assms(1) by (simp add: uint8_of_float_def unat_eq_nat_uint)
qed

lemma np_clip_range: "0 \<le> mb \<Longrightarrow> 0 \<le> np_clip x mb 1 \<and> np_clip x mb 1 \<le> 1"
  by (auto simp: np_clip_def)

lemma np_clip_mono: "x \<le> y \<Longrightarrow> np_clip x lo hi \<le> np_clip y lo hi"
  by (auto simp: np_clip_def)

lemma np_clip_floor: "lo \<le> hi \<Longrightarrow> lo \<le> np_clip x lo hi"
  by (auto simp: np_clip_def)

lemma unat_clean_alpha:
  assumes "0 \<le> mb"
  shows "unat (clean_alpha r mb a) = nat \<lfloor>np_clip (real (unat a) / 255 + (r - 5 / 10)) mb 1 * 255\<rfloor>"
proof -
  from np_clip_range [OF assms, of "real (unat a) / 255 + (r - 5 / 10)"]
  have "0 \<le> np_clip (real (unat a) / 255 + (r - 5 / 10)) mb 1 * 255"
       "np_clip (real (unat a) / 255 + (r - 5 / 10)) mb 1 * 255 \<le> 255"
    by auto
  then show ?thesis
    unfolding clean_alpha_def Let_def by (rule unat_uint8_of_float)
qed

lemma clean_alpha_mono:
  assumes "0 \<le> mb" and "r1 \<le> r2"
  shows "unat (clean_alpha r1 mb a) \<le> unat (clean_alpha r2 mb a)"
proof -
  have "np_clip (real (unat a) / 255 + (r1 - 5 / 10)) mb 1
      \<le> np_clip (real (unat a) / 255 + (r2 - 5 / 10)) mb 1"
    using assms(2) by (intro np_clip_mono) simp
  then have "\<lfloor>np_clip (real (unat a) / 255 + (r1 - 5 / 10)) mb 1 * 255\<rfloor>
      \<le> \<lfloor>np_clip (real (unat a) / 255 + (r2 - 5 / 10)) mb 1 * 255\<rfloor>"
    by (intro floor_mono) simp
  then show ?thesis
    by (simp add: unat_clean_alpha [OF assms(1)] nat_mono)
qed

lemma clean_alpha_floor:
  assumes "0 \<le> mb" and "mb \<le> 1"
  shows "\<lfloor>mb * 255\<rfloor> \<le> int (unat (clean_alpha r mb a))"
proof -
  have "mb \<le> np_clip (real (unat a) / 255 + (r - 5 / 10)) mb 1"
    using assms(2) by (rule np_clip_floor)
  then have "\<lfloor>mb * 255\<rfloor> \<le> \<lfloor>np_clip (real (unat a) / 255 + (r - 5 / 10)) mb 1 * 255\<rfloor>"
    by (intro floor_mono) simp
  moreover have "0 \<le> \<lfloor>np_clip (real (unat a) / 255 + (r - 5 / 10)) mb 1 * 255\<rfloor>"
    using np_clip_range [OF assms(1), of "real (unat a) / 255 + (r - 5 / 10)"] by simp
  ultimately show ?thesis
    unfolding unat_clean_alpha [OF assms(1)] by linarith
qed


lemma clean_image_with_mask_Some:
  assumes "4 \<le> length (bands (h ! img))"
  shows "clean_image_with_mask h img (Some r) mb =
           Inr (length h, h @ [(h ! img)\<lparr>bands := (bands (h ! img))[3 := map (clean_alpha r mb) (bands (h ! img) ! 3)]\<rparr>])"
  using assms by (simp add: clean_image_with_mask_def Let_def alloc_def)

lemma cleaned_band:
  assumes "4 \<le> length (bands (h ! img))"
  shows "bands ((h @ [(h ! img)\<lparr>bands := (bands (h ! img))[3 := xs]\<rparr>]) ! length h) ! 3 = xs"
  using assms by simp

text \<open>On every pixel the cleaned alpha does not decrease when the threshold is raised.\<close>

lemma clean_threshold_monotone:
  assumes "r1 \<le> r2" and "0 \<le> mb" and "4 \<le> length (bands (h ! img))"
  shows "\<exists>p1 h1 p2 h2.
           clean_image_with_mask h img (Some r1) mb = Inr (p1, h1) \<and>
           clean_image_with_mask h img (Some r2) mb = Inr (p2, h2) \<and>
           length (bands (h1 ! p1) ! 3) = length (bands (h ! img) ! 3) \<and>
           length (bands (h2 ! p2) ! 3) = length (bands (h ! img) ! 3) \<and>
           (\<forall>i < length (bands (h ! img) ! 3).
              unat (bands (h1 ! p1) ! 3 ! i) \<le> unat (bands (h2 ! p2) ! 3 ! i))"
proof -
  let ?a = "bands (h ! img) ! 3"
  let ?out = "\<lambda>r. h @ [(h ! img)\<lparr>bands := (bands (h ! img))[3 := map (clean_alpha r mb) ?a]\<rparr>]"
  have e: "clean_image_with_mask h img (Some r) mb = Inr (length h, ?out r)" for r
    by (rule clean_image_with_mask_Some [OF assms(3)])
  have b: "bands (?out r ! length h) ! 3 = map (clean_alpha r mb) ?a" for r
    by (rule cleaned_band [OF assms(3)])
  have m: "\<forall>i < length ?a. unat (bands (?out r1 ! length h) ! 3 ! i) \<le> unat (bands (?out r2 ! length h) ! 3 ! i)"
    unfolding b by (simp add: clean_alpha_mono [OF assms(2,1)])
  have l: "length (bands (?out r ! length h) ! 3) = length ?a" for r
    unfolding b by simp
  from e [of r1] e [of r2] l [of r1] l [of r2] m show ?thesis by blast
qed

section \<open>Properties of the compositing stage\<close>

lemma putalpha_ok:
  assumes "length (bands a) = 1" and "isize a = isize im"
  shows "putalpha im a = Inr (im\<lparr>bands :=
             (if length (bands im) = 2 \<or> length (bands im) = 4
              then (bands im)[length (bands im) - 1 := hd (bands a)]
              else bands im @ [hd (bands a)])\<rparr>)"
  using assms by (simp add: putalpha_def)

lemma putalpha_rgb:
  assumes "putalpha im a = Inr im'" and "length (bands im) = 3 \<or> length (bands im) = 4"
  shows "isize im' = isize im \<and> length (bands im') = 4 \<and> take 3 (bands im') = take 3 (bands im)"
  using assms by (auto simp: putalpha_def split: if_splits)

lemma clean_keeps_rgb:
  assumes "clean_image_with_mask h p r mb = Inr (p', h')" and "p < length h" and "length (bands (h ! p)) = 4"
  shows "isize (h' ! p') = isize (h ! p) \<and> length (bands (h' ! p')) = 4
         \<and> take 3 (bands (h' ! p')) = take 3 (bands (h ! p))
         \<and> p' < length h' \<and> length h \<le> length h' \<and> take (length h) h' = h"
  using assms
  by (auto simp: clean_image_with_mask_def alloc_def Let_def nth_append split: option.splits if_splits)

lemma convert_RGB_take:
  "3 \<le> length (bands im) \<Longrightarrow> convert_RGB im = im\<lparr>bands := take 3 (bands im)\<rparr>"
  by (simp add: convert_RGB_def)

lemma clean_total:
  assumes "4 \<le> length (bands (h ! p))"
  shows "\<exists>p' h'. clean_image_with_mask h p r mb = Inr (p', h')"
  using assms by (cases r) (simp_all add: clean_image_with_mask_def Let_def alloc_def)


lemma pil_contract_resize:
  "pil_contract L \<Longrightarrow> isize (pil_resize L m sz) = sz \<and> length (bands (pil_resize L m sz)) = length (bands m)"
  unfolding pil_contract_def by blast

lemma pil_contract_blur:
  "pil_contract L \<Longrightarrow> 0 \<le> r \<Longrightarrow>
   isize (pil_gaussian_blur L r im) = isize im \<and> length (bands (pil_gaussian_blur L r im)) = length (bands im)"
  unfolding pil_contract_def by blast

lemma compose_item_result:
  assumes con: "pil_contract L" and c: "c < length h" and m: "m < length h"
    and rgb: "length (bands (h ! c)) = 3 \<or> length (bands (h ! c)) = 4"
    and l: "length (bands (h ! m)) = 1" and gb: "0 \<le> gaussian_blur C"
  shows "\<exists>q h'. compose_item L C h c m = Inr (q, h') \<and> q < length h' \<and> length h \<le> q \<and>
          take (length h) h' = h \<and>
          isize (h' ! q) = isize (h ! c) \<and>
          composite L (convert_RGB (h ! c))
            (pil_gaussian_blur L (gaussian_blur C) (convert_RGB (h ! c)))
            (pil_resize L (h ! m) (isize (h ! c))) = Inr (h' ! q) \<and>
          putalpha (h ! c) (pil_resize L (h ! m) (isize (h ! c))) = Inr (h' ! length h)"
proof -
  define A where "A = pil_resize L (h ! m) (isize (h ! c))"
  have A: "isize A = isize (h ! c)" "length (bands A) = 1"
    using pil_contract_resize [OF con, of "h ! m" "isize (h ! c)"] l by (simp_all add: A_def)
  from putalpha_ok [OF A(2) A(1)] obtain q' where pa: "putalpha (h ! c) A = Inr q'" by blast
  note q' = putalpha_rgb [OF pa rgb]
  define h3 where "h3 = h @ [q', A]"
  have h3: "(h @ [h ! c, A])[length h := q'] = h3" by (simp add: h3_def)
  have q3: "h3 ! length h = q'" "length h < length h3" by (simp_all add: h3_def)
  from q' q3 have "4 \<le> length (bands (h3 ! length h))" by simp
  from clean_total [OF this] obtain qc h4
    where cl: "clean_image_with_mask h3 (length h) (threshold_clean_mask C) (min_blur C) = Inr (qc, h4)"
    by blast
  from clean_keeps_rgb [OF cl q3(2)] q' q3
  have k: "isize (h4 ! qc) = isize (h ! c)" "length (bands (h4 ! qc)) = 4"
          "take 3 (bands (h4 ! qc)) = take 3 (bands (h ! c))"
          "qc < length h4" "length h3 \<le> length h4" "take (length h3) h4 = h3"
    by simp_all
  have R: "convert_RGB (h4 ! qc) = convert_RGB (h ! c)"
    using k(1,2,3) rgb by (auto simp: convert_RGB_def)
  define R where "R = convert_RGB (h ! c)"
  define B where "B = pil_gaussian_blur L (gaussian_blur C) R"
  have Rp: "isize R = isize (h ! c)" "length (bands R) = 3"
    using rgb by (auto simp: R_def convert_RGB_def)
  have Bp: "isize B = isize (h ! c)" "length (bands B) = 3"
    using pil_contract_blur [OF con gb, of R] Rp by (simp_all add: B_def)
  have pre: "h4 ! i = h ! i" if "i < length h" for i
  proof -
    from that have "i < length h3" by (simp add: h3_def)
    then have "h4 ! i = take (length h3) h4 ! i" by simp
    also have "\<dots> = h3 ! i" by (simp only: k(6))
    also have "\<dots> = h ! i" using that by (simp add: h3_def nth_append)
    finally show ?thesis .
  qed
  have len: "length h + 2 \<le> length h4" using k(5) by (simp add: h3_def)
  obtain out where co: "composite L R B A = Inr out" and outp: "isize out = isize (h ! c)"
    using A Rp Bp by (auto simp: composite_def)
  have th: "take (length h) h4 = h"
  proof -
    have "take (length h) h4 = take (length h) (take (length h3) h4)" by (simp add: h3_def min_def)
    also have "\<dots> = take (length h) h3" by (simp only: k(6))
    also have "\<dots> = h" by (simp add: h3_def)
    finally show ?thesis .
  qed
  have hq: "h4 ! length h = q'"
  proof -
    have "h4 ! length h = take (length h3) h4 ! length h" using q3(2) by simp
    also have "\<dots> = h3 ! length h" by (simp only: k(6))
    also have "\<dots> = q'" by (simp add: q3)
    finally show ?thesis .
  qed
  have "compose_item L C h c m = Inr (length h4 + 3, h4 @ [R, B, A, out])"
    unfolding compose_item_def alloc_def
    using c m len k(4)
    by (simp add: Let_def nth_append A_def [symmetric] pa cl [unfolded h3_def] R R_def [symmetric]
          B_def [symmetric] pre co)
  moreover have "(h4 @ [R, B, A, out]) ! (length h4 + 3) = out"
    by (simp add: nth_append)
  moreover have "take (length h) (h4 @ [R, B, A, out]) = h"
    using len th by simp
  moreover have "(h4 @ [R, B, A, out]) ! length h = q'"
    using len hq by (simp add: nth_append)
  ultimately show ?thesis
    using outp co pa len unfolding R_def B_def A_def
    by (intro exI [of _ "length h4 + 3"] exI [of _ "h4 @ [R, B, A, out]"]) (simp add: R_def B_def A_def)
qed

section \<open>Stores only grow\<close>

lemma store_extends_refl: "store_extends h h"
  by (simp add: store_extends_def)

lemma store_extends_trans:
  assumes "store_extends a b" and "store_extends b c"
  shows "store_extends a c"
proof -
  from assms have l: "length a \<le> length b" "length b \<le> length c"
    and t: "take (length a) b = a" "take (length b) c = b"
    by (simp_all add: store_extends_def)
  have "take (length a) c = take (length a) (take (length b) c)"
    using l by (simp add: min_def)
  also have "\<dots> = a" by (simp only: t)
  finally show ?thesis using l by (simp add: store_extends_def)
qed

lemma store_extends_append: "store_extends h (h @ xs)"
  by (simp add: store_extends_def)

lemma store_extends_nth: "store_extends h h' \<Longrightarrow> p < length h \<Longrightarrow> h' ! p = h ! p"
  by (metis nth_take store_extends_def)

lemma clean_frame:
  assumes "clean_image_with_mask h p r mb = Inr (p', h')"
  shows "store_extends h h' \<and>
         (case r of None \<Rightarrow> p' = p \<and> h' = h | Some x \<Rightarrow> p' = length h \<and> length h' = Suc (length h))"
  using assms
  by (auto simp: clean_image_with_mask_def alloc_def Let_def store_extends_def split: option.splits if_splits)

lemma compose_item_frame:
  assumes "compose_item L C h c m = Inr (q, h')"
  shows "length h < q \<and> q < length h' \<and> store_extends h h' \<and>
         putalpha (h ! c) (pil_resize L ((h @ [h ! c]) ! m) (isize ((h @ [h ! c]) ! c))) = Inr (h' ! length h)"
proof -
  let ?A = "pil_resize L ((h @ [h ! c]) ! m) (isize ((h @ [h ! c]) ! c))"
  show ?thesis
  proof (cases "putalpha (h ! c) ?A")
    case (Inl e)
    with assms show ?thesis by (simp add: compose_item_def alloc_def)
  next
    case (Inr q')
    show ?thesis
    proof (cases "clean_image_with_mask (h @ [q', ?A]) (length h) (threshold_clean_mask C) (min_blur C)")
      case (Inl e)
      with assms Inr show ?thesis by (simp add: compose_item_def alloc_def)
    next
      case cl: (Inr r)
      obtain qc h4 where r: "r = (qc, h4)" by (cases r)
      from clean_frame [OF cl [unfolded r]] have "store_extends (h @ [q', ?A]) h4" by simp
      from store_extends_trans [OF store_extends_append this]
      have 1: "store_extends h h4" .
      from clean_frame [OF cl [unfolded r]] have 2: "length h + 2 \<le> length h4"
        by (simp add: store_extends_def)
      from assms Inr cl r obtain xs where res: "q = length h4 + 3" "h' = h4 @ xs" "length xs = 4"
        by (auto simp: compose_item_def alloc_def split: sum.splits)
      from clean_frame [OF cl [unfolded r]] 2
      have "h4 ! length h = (h @ [q', ?A]) ! length h"
        by (intro store_extends_nth) simp_all
      with res 2 have 3: "h' ! length h = q'" by (simp add: nth_append)
      from res 2 3 Inr store_extends_trans [OF 1 store_extends_append, of xs]
      show ?thesis by simp
    qed
  qed
qed

lemma get_img_Inr: "get_img d key = Inr i \<longleftrightarrow> d key = Some (Img i)"
  by (simp add: get_img_def split: option.splits pyval.splits)

lemma get_float_Inr: "get_float d key = Inr a \<longleftrightarrow> d key = Some (Float a)"
  by (simp add: get_float_def split: option.splits pyval.splits)


lemma process_item_present_eq:
  assumes "d ''mask'' = Some (Img m)" and "d ''cropped_image'' = Some (Img c)"
    and "d ''detection_accurancy'' = Some (Float a)" and "d ''segmentation_accurancy'' = Some (Float s)"
    and "compose_item L C h c m = Inr (q, h')"
  shows "process_item L C h d orig =
           Inr (d(''image_segmented'' \<mapsto> (if s < threshold_segmentation C \<and> \<not> show_bad_results C then PyNone else Img q),
                  ''cropped_image'' \<mapsto> (if a < threshold_detect C \<and> \<not> show_bad_results C then PyNone else Img c),
                  ''image_original'' \<mapsto> Img orig), h')"
  using assms
  by (simp add: process_item_def Let_def get_img_def get_float_def fun_eq_iff)

lemma process_item_present:
  assumes "process_item L C h d orig = Inr (d', h')" and "d ''mask'' = Some (Img m)"
  shows "\<exists>c a s q.
           d ''cropped_image'' = Some (Img c) \<and> d ''detection_accurancy'' = Some (Float a) \<and>
           d ''segmentation_accurancy'' = Some (Float s) \<and>
           compose_item L C h c m = Inr (q, h') \<and>
           d' = d(''image_segmented'' \<mapsto> (if s < threshold_segmentation C \<and> \<not> show_bad_results C then PyNone else Img q),
                  ''cropped_image'' \<mapsto> (if a < threshold_detect C \<and> \<not> show_bad_results C then PyNone else Img c),
                  ''image_original'' \<mapsto> Img orig)"
proof -
  from assms obtain c where c: "d ''cropped_image'' = Some (Img c)"
    by (auto simp: process_item_def get_img_def split: option.splits pyval.splits)
  with assms obtain q h1 where co: "compose_item L C h c m = Inr (q, h1)"
    by (auto simp: process_item_def get_img_def split: sum.splits)
  with assms c obtain a where a: "d ''detection_accurancy'' = Some (Float a)"
    by (auto simp: process_item_def get_img_def get_float_def Let_def split: option.splits pyval.splits)
  with assms c co obtain s where s: "d ''segmentation_accurancy'' = Some (Float s)"
    by (auto simp: process_item_def get_img_def get_float_def Let_def split: option.splits pyval.splits if_splits)
  from process_item_present_eq [OF assms(2) c a s co, of orig] assms(1)
  have "h1 = h'" and "d' = d(''image_segmented'' \<mapsto> (if s < threshold_segmentation C \<and> \<not> show_bad_results C then PyNone else Img q),
                  ''cropped_image'' \<mapsto> (if a < threshold_detect C \<and> \<not> show_bad_results C then PyNone else Img c),
                  ''image_original'' \<mapsto> Img orig)"
    by simp_all
  with c co a s show ?thesis by blast
qed

lemma process_item_frame:
  assumes "process_item L C h d orig = Inr (d', h')"
  shows "store_extends h h' \<and> d' ''mask'' = d ''mask''"
proof (cases "d ''mask''")
  case None
  with assms show ?thesis by (simp add: process_item_def)
next
  case (Some v)
  show ?thesis
  proof (cases v)
    case PyNone
    with Some assms show ?thesis by (simp add: process_item_def store_extends_refl)
  next
    case (Img m)
    from process_item_present [OF assms Some [unfolded Img]] obtain c a s q where
      "compose_item L C h c m = Inr (q, h')"
      "d' = d(''image_segmented'' \<mapsto> (if s < threshold_segmentation C \<and> \<not> show_bad_results C then PyNone else Img q),
                  ''cropped_image'' \<mapsto> (if a < threshold_detect C \<and> \<not> show_bad_results C then PyNone else Img c),
                  ''image_original'' \<mapsto> Img orig)" by blast
    with compose_item_frame [of L C h c m q h'] show ?thesis by simp
  next
    case (Float x)
    with Some assms show ?thesis
      by (simp add: process_item_def get_img_def split: option.splits pyval.splits)
  qed
qed

lemma item_loop_Cons:
  assumes "item_loop L C imgs (k # ks) (predict, h) = Inr (predict', h')"
  shows "k < length predict \<and> k < length imgs \<and>
         (\<exists>d h1. process_item L C h (predict ! k) (imgs ! k) = Inr (d, h1) \<and>
                  item_loop L C imgs ks (predict[k := d], h1) = Inr (predict', h'))"
proof -
  from assms have b: "k < length predict" "k < length imgs"
    by (simp_all split: if_splits)
  with assms show ?thesis
    by (cases "process_item L C h (predict ! k) (imgs ! k)") auto
qed

lemma item_loop_frame:
  assumes "item_loop L C imgs ks (predict, h) = Inr (predict', h')"
  shows "store_extends h h' \<and> length predict' = length predict"
  using assms
proof (induction ks arbitrary: predict h)
  case Nil
  then show ?case by (simp add: store_extends_refl)
next
  case (Cons k ks)
  from item_loop_Cons [OF Cons.prems] obtain d h1 where
    p: "process_item L C h (predict ! k) (imgs ! k) = Inr (d, h1)"
    and r: "item_loop L C imgs ks (predict[k := d], h1) = Inr (predict', h')"
    by blast
  from Cons.IH [OF r] process_item_frame [OF p] store_extends_trans [of h h1 h']
  show ?case by simp
qed

lemma item_loop_nth:
  assumes "item_loop L C imgs ks (predict, h) = Inr (predict', h')" and "distinct ks"
  shows "(k \<in> set ks \<longrightarrow> k < length predict \<and> k < length imgs \<and>
            (\<exists>h1 h2. process_item L C h1 (predict ! k) (imgs ! k) = Inr (predict' ! k, h2)
                      \<and> store_extends h h1 \<and> store_extends h2 h'))
       \<and> (k \<notin> set ks \<longrightarrow> predict' ! k = predict ! k)"
  using assms
proof (induction ks arbitrary: predict h)
  case Nil
  then show ?case by simp
next
  case (Cons j ks)
  from item_loop_Cons [OF Cons.prems(1)] obtain d h1 where
    b: "j < length predict" "j < length imgs"
    and p: "process_item L C h (predict ! j) (imgs ! j) = Inr (d, h1)"
    and r: "item_loop L C imgs ks (predict[j := d], h1) = Inr (predict', h')"
    by blast
  from Cons.prems have dk: "distinct ks" "j \<notin> set ks" by simp_all
  note IH = Cons.IH [OF r dk(1)]
  from process_item_frame [OF p] have f1: "store_extends h h1" by simp
  from item_loop_frame [OF r] have f2: "store_extends h1 h'" by simp
  show ?case
  proof (cases "k = j")
    case True
    with IH dk(2) b have "predict' ! k = d" by simp
    with True p have "process_item L C h (predict ! k) (imgs ! k) = Inr (predict' ! k, h1)" by simp
    with store_extends_refl [of h] f2 True b show ?thesis by auto
  next
    case False
    show ?thesis
    proof (cases "k \<in> set ks")
      case True
      with IH False obtain h2 h3 where
        q: "process_item L C h2 (predict ! k) (imgs ! k) = Inr (predict' ! k, h3)"
           "store_extends h1 h2" "store_extends h3 h'" "k < length predict" "k < length imgs"
        by auto
      from store_extends_trans [OF f1 q(2)] q True show ?thesis by auto
    next
      case notin: False
      with IH False show ?thesis by simp
    qed
  qed
qed

section \<open>Properties of the detection, crop and segmentation stage\<close>

lemma aggregate_prediction_score:
  assumes "aggregate_prediction model_shape k p = Inr (b, a)"
  shows "scores p \<noteq> [] \<and> a = scores p ! 0"
  using assms
  by (cases "scores p") (auto simp: aggregate_prediction_def Let_def split: sum.splits)

lemma aggregate_all_nth:
  assumes "aggregate_all model_shape k ps = Inr rs"
  shows "length rs = length ps \<and> (\<forall>i < length ps. aggregate_prediction model_shape k (ps ! i) = Inr (rs ! i))"
  using assms
proof (induction ps arbitrary: rs)
  case Nil
  then show ?case by simp
next
  case (Cons p ps)
  from Cons.prems obtain r rs' where
    r: "aggregate_prediction model_shape k p = Inr r" "aggregate_all model_shape k ps = Inr rs'" "rs = r # rs'"
    by (auto split: sum.splits)
  from Cons.IH [OF r(2)] r(1,3) show ?case
    by (auto simp: nth_Cons split: nat.splits)
qed

lemma crop_loop_result:
  assumes "crop_loop L images rboxes ks (ci, da, h) = Inr (ci', da', h')"
  shows "store_extends h h' \<and> da' = da @ map (\<lambda>k. snd (rboxes ! k)) ks \<and> length ci' = length ci + length ks
         \<and> (\<forall>k \<in> set ks. k < length images)"
  using assms
proof (induction ks arbitrary: ci da h)
  case Nil
  then show ?case by (simp add: store_extends_refl)
next
  case (Cons k ks)
  obtain rbox acc where rb: "rboxes ! k = (rbox, acc)" by (cases "rboxes ! k")
  obtain c h1 where cr: "crop_image L h (images ! k) rbox = (c, h1)" by (cases "crop_image L h (images ! k) rbox")
  from Cons.prems rb cr have b: "k < length rboxes" "k < length images"
    and r: "crop_loop L images rboxes ks (ci @ [c], da @ [acc], h1) = Inr (ci', da', h')"
    by (simp_all split: if_splits)
  from cr have "store_extends h h1"
    by (auto simp: crop_image_def alloc_def Let_def store_extends_def split: prod.splits)
  from store_extends_trans [OF this] Cons.IH [OF r] rb b show ?case by simp
qed

lemma mask_loop_frame:
  assumes "mask_loop h ps result = (e, result', h')"
  shows "store_extends h h'"
  using assms
proof (induction ps arbitrary: h result)
  case Nil
  then show ?case by (simp add: store_extends_refl)
next
  case (Cons p ps)
  show ?case
  proof (cases "seg_scores p = [] \<or> seg_masks p = []")
    case True
    with Cons.prems show ?thesis
      by (auto simp: store_extends_refl split: list.splits)
  next
    case False
    then obtain s ss m ms where sm: "seg_scores p = s # ss" "seg_masks p = m # ms"
      by (cases "seg_scores p"; cases "seg_masks p") auto
    with Cons.prems have "mask_loop (h @ [m]) ps (result @ [(Some (length h), Some s)]) = (e, result', h')"
      by (simp add: alloc_def)
    from Cons.IH [OF this] store_extends_trans [OF store_extends_append] show ?thesis by blast
  qed
qed

lemma jewellery_mask_frame:
  assumes "jewellery_mask h ps = (masks, h')"
  shows "store_extends h h'"
proof -
  obtain e r h1 where m: "mask_loop h ps [] = (e, r, h1)" by (cases "mask_loop h ps []")
  with assms have "h' = h1" by (cases e) (simp_all add: jewellery_mask_def)
  with mask_loop_frame [OF m] show ?thesis by simp
qed

lemma mask_loop_pairs:
  assumes "mask_loop h ps result = (e, result', h')" and "\<forall>r \<in> set result. fst r = None \<longrightarrow> snd r = None"
  shows "\<forall>r \<in> set result'. fst r = None \<longrightarrow> snd r = None"
  using assms
proof (induction ps arbitrary: h result)
  case Nil
  then show ?case by simp
next
  case (Cons p ps)
  show ?case
  proof (cases "seg_scores p = [] \<or> seg_masks p = []")
    case True
    with Cons.prems show ?thesis
      by (auto split: list.splits)
  next
    case False
    then obtain s ss m ms where sm: "seg_scores p = s # ss" "seg_masks p = m # ms"
      by (cases "seg_scores p"; cases "seg_masks p") auto
    with Cons.prems(1) have "mask_loop (h @ [m]) ps (result @ [(Some (length h), Some s)]) = (e, result', h')"
      by (simp add: alloc_def)
    from Cons.IH [OF this] Cons.prems(2) show ?thesis by simp
  qed
qed

lemma jewellery_mask_pairs:
  assumes "jewellery_mask h ps = (masks, h')"
  shows "\<forall>r \<in> set masks. fst r = None \<longrightarrow> snd r = None"
proof -
  obtain e r h1 where m: "mask_loop h ps [] = (e, r, h1)" by (cases "mask_loop h ps []")
  from mask_loop_pairs [OF m] have "\<forall>x \<in> set r. fst x = None \<longrightarrow> snd x = None" by simp
  with assms m show ?thesis by (cases e) (fastforce simp: jewellery_mask_def)+
qed

lemma result_loop_result:
  assumes "result_loop ci da masks ks result = Inr result'"
  shows "result' = result @ map (result_entry ci da masks) ks \<and> (\<forall>k \<in> set ks. k < length masks)"
  using assms
proof (induction ks arbitrary: result)
  case Nil
  then show ?case by simp
next
  case (Cons k ks)
  from Cons.prems have
    "result_loop ci da masks ks (result @ [result_entry ci da masks k]) = Inr result'"
    and "k < length masks"
    by (simp_all split: if_splits)
  with Cons.IH [OF this(1)] show ?case by simp
qed

lemma jewellery_detect_crop_mask_result:
  assumes "jewellery_detect_crop_mask L h images model_detection model_mask model_shape k = Inr (predict, h')"
  shows "store_extends h h' \<and> length predict = length (model_detection (map ((!) h) images)) \<and>
         (\<forall>i < length predict.
            (\<exists>c. (predict ! i) ''cropped_image'' = Some (Img c)) \<and>
            scores (model_detection (map ((!) h) images) ! i) \<noteq> [] \<and>
            (predict ! i) ''detection_accurancy'' = Some (Float (scores (model_detection (map ((!) h) images) ! i) ! 0)) \<and>
            ((predict ! i) ''mask'' = Some PyNone \<longrightarrow> (predict ! i) ''segmentation_accurancy'' = Some PyNone) \<and>
            dom (predict ! i) = {''cropped_image'', ''detection_accurancy'', ''mask'', ''segmentation_accurancy''})"
proof -
  let ?ps = "model_detection (map ((!) h) images)"
  from assms obtain rboxes where rb: "aggregate_all model_shape k ?ps = Inr rboxes"
    by (auto simp: jewellery_detect_crop_mask_def jewellery_detection_get_rx_ry_def split: sum.splits)
  with assms obtain ci da h1 where
    cl: "crop_loop L images rboxes [0..<length rboxes] ([], [], h) = Inr (ci, da, h1)"
    by (auto simp: jewellery_detect_crop_mask_def jewellery_detection_get_rx_ry_def Let_def split: sum.splits)
  obtain masks h2 where jm: "jewellery_mask h1 (model_mask (map ((!) h1) ci)) = (masks, h2)"
    by (cases "jewellery_mask h1 (model_mask (map ((!) h1) ci))")
  from assms rb cl jm have
    rl: "result_loop ci da masks [0..<length rboxes] [] = Inr predict" and h': "h' = h2"
    by (auto simp: jewellery_detect_crop_mask_def jewellery_detection_get_rx_ry_def Let_def split: sum.splits)
  note agg = aggregate_all_nth [OF rb]
  note cr = crop_loop_result [OF cl]
  from result_loop_result [OF rl] have p: "predict = map (result_entry ci da masks) [0..<length rboxes]" by simp
  have ext: "store_extends h h'"
    using store_extends_trans [of h h1 h2] cr jewellery_mask_frame [OF jm] h' by simp
  have "\<forall>i < length predict.
            (\<exists>c. (predict ! i) ''cropped_image'' = Some (Img c)) \<and>
            scores (?ps ! i) \<noteq> [] \<and>
            (predict ! i) ''detection_accurancy'' = Some (Float (scores (?ps ! i) ! 0)) \<and>
            ((predict ! i) ''mask'' = Some PyNone \<longrightarrow> (predict ! i) ''segmentation_accurancy'' = Some PyNone) \<and>
            dom (predict ! i) = {''cropped_image'', ''detection_accurancy'', ''mask'', ''segmentation_accurancy''}"
  proof (intro allI impI)
    fix i assume "i < length predict"
    with p have i: "i < length rboxes" by simp
    with p have d: "predict ! i = result_entry ci da masks i" by simp
    from agg i have "aggregate_prediction model_shape k (?ps ! i) = Inr (fst (rboxes ! i), snd (rboxes ! i))"
      by simp
    from aggregate_prediction_score [OF this]
    have s: "scores (?ps ! i) \<noteq> []" "snd (rboxes ! i) = scores (?ps ! i) ! 0" by simp_all
    from cr i have "da ! i = snd (rboxes ! i)" by simp
    with s have a: "da ! i = scores (?ps ! i) ! 0" by simp
    from result_loop_result [OF rl] i have "i < length masks" by simp
    with jewellery_mask_pairs [OF jm] have mk: "fst (masks ! i) = None \<longrightarrow> snd (masks ! i) = None"
      by simp
    show "(\<exists>c. (predict ! i) ''cropped_image'' = Some (Img c)) \<and>
            scores (?ps ! i) \<noteq> [] \<and>
            (predict ! i) ''detection_accurancy'' = Some (Float (scores (?ps ! i) ! 0)) \<and>
            ((predict ! i) ''mask'' = Some PyNone \<longrightarrow> (predict ! i) ''segmentation_accurancy'' = Some PyNone) \<and>
            dom (predict ! i) = {''cropped_image'', ''detection_accurancy'', ''mask'', ''segmentation_accurancy''}"
      unfolding d using s(1) a mk
      by (auto simp: result_entry_def of_opt_img_def of_opt_float_def split: option.splits if_splits)
  qed
  with ext p agg show ?thesis by simp
qed

section \<open>A failing segmentation that is not the last of the batch\<close>

text \<open>
  When prediction \<open>i\<close> is the first without score or mask, \<open>jewellery_mask\<close> returns
  \<open>i + 1\<close> results whatever the size of the batch, and with more than \<open>i + 1\<close> images
  the dictionaries cannot be built.
\<close>

lemma mask_loop_stops:
  assumes "i < length ps"
    and "seg_scores (ps ! i) = [] \<or> seg_masks (ps ! i) = []"
    and "\<forall>j < i. seg_scores (ps ! j) \<noteq> [] \<and> seg_masks (ps ! j) \<noteq> []"
  shows "\<exists>res h'. mask_loop h ps result = (Some IndexError, res, h') \<and> length res = length result + i"
  using assms
proof (induction ps arbitrary: h result i)
  case Nil
  then show ?case by simp
next
  case (Cons p ps)
  show ?case
  proof (cases i)
    case 0
    with Cons.prems(2) show ?thesis by (auto split: list.splits)
  next
    case (Suc n)
    with Cons.prems(3) have "seg_scores p \<noteq> [] \<and> seg_masks p \<noteq> []" by fastforce
    then obtain s ss m ms where sm: "seg_scores p = s # ss" "seg_masks p = m # ms"
      by (cases "seg_scores p"; cases "seg_masks p") auto
    from Cons.prems Suc have n: "n < length ps" "seg_scores (ps ! n) = [] \<or> seg_masks (ps ! n) = []"
      "\<forall>j < n. seg_scores (ps ! j) \<noteq> [] \<and> seg_masks (ps ! j) \<noteq> []"
      by auto
    from Cons.IH [OF n, of "h @ [m]" "result @ [(Some (length h), Some s)]"] sm Suc
    show ?thesis by (simp add: alloc_def)
  qed
qed

lemma jewellery_mask_short:
  assumes "i < length ps"
    and "seg_scores (ps ! i) = [] \<or> seg_masks (ps ! i) = []"
    and "\<forall>j < i. seg_scores (ps ! j) \<noteq> [] \<and> seg_masks (ps ! j) \<noteq> []"
  shows "length (fst (jewellery_mask h ps)) = i + 1"
proof -
  from mask_loop_stops [OF assms, of h "[]"] obtain res h' where
    "mask_loop h ps [] = (Some IndexError, res, h')" "length res = i" by auto
  then show ?thesis by (simp add: jewellery_mask_def)
qed

lemma result_loop_short:
  assumes "\<exists>k \<in> set ks. length masks \<le> k"
  shows "result_loop cropped_images detect_acc masks ks result = Inl IndexError"
  using assms by (induction ks arbitrary: result) auto

lemma early_segmentation_failure_aborts:
  assumes "jewellery_detection_get_rx_ry (model_detection (map ((!) h) images)) model_shape k = Inr rboxes"
    and "crop_loop L images rboxes [0..<length rboxes] ([], [], h) = Inr (cropped_images, detect_acc, h1)"
    and "i < length (model_mask (map ((!) h1) cropped_images))"
    and "seg_scores (model_mask (map ((!) h1) cropped_images) ! i) = [] \<or>
         seg_masks (model_mask (map ((!) h1) cropped_images) ! i) = []"
    and "\<forall>j < i. seg_scores (model_mask (map ((!) h1) cropped_images) ! j) \<noteq> [] \<and>
                 seg_masks (model_mask (map ((!) h1) cropped_images) ! j) \<noteq> []"
    and "i + 1 < length rboxes"
  shows "jewellery_detect_crop_mask L h images model_detection model_mask model_shape k = Inl IndexError"
proof -
  obtain masks h2 where jm: "jewellery_mask h1 (model_mask (map ((!) h1) cropped_images)) = (masks, h2)"
    by (cases "jewellery_mask h1 (model_mask (map ((!) h1) cropped_images))")
  from jewellery_mask_short [OF assms(3-5), of h1] jm have "length masks = i + 1" by simp
  with assms(6) have "\<exists>k \<in> set [0..<length rboxes]. length masks \<le> k"
    by (intro bexI [of _ "i + 1"]) simp_all
  from result_loop_short [OF this] assms(1,2) jm show ?thesis
    by (simp add: jewellery_detect_crop_mask_def)
qed

section \<open>Properties of the whole pipeline\<close>

lemma get_jewellery_image_impl_Inr:
  assumes "get_jewellery_image_impl L h imgs md mm model_shape k C = Inr (result, h')"
  shows "\<exists>predict h1.
           jewellery_detect_crop_mask L h imgs md mm model_shape k = Inr (predict, h1) \<and>
           item_loop L C imgs [0..<length imgs] (predict, h1) = Inr (result, h')"
  using assms
  by (cases "jewellery_detect_crop_mask L h imgs md mm model_shape k")
     (auto simp: get_jewellery_image_impl_def)


lemma item_loop_present:
  assumes "item_loop L C imgs ks (predict, h) = Inr (predict', h')" and "distinct ks"
    and "k \<in> set ks" and "(predict ! k) ''mask'' = Some (Img m)"
  shows "\<exists>c a s q.
           (predict ! k) ''cropped_image'' = Some (Img c) \<and>
           (predict ! k) ''detection_accurancy'' = Some (Float a) \<and>
           (predict ! k) ''segmentation_accurancy'' = Some (Float s) \<and>
           predict' ! k = (predict ! k)
             (''image_segmented'' \<mapsto> (if s < threshold_segmentation C \<and> \<not> show_bad_results C then PyNone else Img q),
              ''cropped_image'' \<mapsto> (if a < threshold_detect C \<and> \<not> show_bad_results C then PyNone else Img c),
              ''image_original'' \<mapsto> Img (imgs ! k))"
proof -
  from item_loop_nth [OF assms(1,2), of k] assms(3) obtain h1 h2 where
    p: "process_item L C h1 (predict ! k) (imgs ! k) = Inr (predict' ! k, h2)" by blast
  from process_item_present [OF p assms(4)] show ?thesis by blast
qed

lemma get_jewellery_image_impl_frame:
  assumes "get_jewellery_image_impl L h imgs md mm model_shape k C = Inr (result, h')"
  shows "store_extends h h'"
proof -
  from get_jewellery_image_impl_Inr [OF assms] obtain predict h1 where
    j: "jewellery_detect_crop_mask L h imgs md mm model_shape k = Inr (predict, h1)"
    and l: "item_loop L C imgs [0..<length imgs] (predict, h1) = Inr (result, h')"
    by blast
  from jewellery_detect_crop_mask_result [OF j] item_loop_frame [OF l] store_extends_trans [of h h1 h']
  show ?thesis by simp
qed

section \<open>The examples evaluated\<close>

lemma example_run_absent:
  "get_jewellery_image_impl example_pil [example_image] [0] example_detector
        (\<lambda>ims. [\<lparr>seg_scores = [], seg_masks = []\<rparr>]) (384, 384) (5 / 100) example_config
   = Inr ([[''cropped_image'' \<mapsto> Img 1, ''detection_accurancy'' \<mapsto> Float (5 / 10),
            ''mask'' \<mapsto> PyNone, ''segmentation_accurancy'' \<mapsto> PyNone]],
          [example_image, example_image])"
  by (simp add: get_jewellery_image_impl_def jewellery_detect_crop_mask_def jewellery_detection_get_rx_ry_def
        aggregate_prediction_eq crop_image_def alloc_def jewellery_mask_def result_entry_def
        of_opt_img_def of_opt_float_def process_item_def)

lemma example_run_present:
  "\<exists>d h'. get_jewellery_image_impl example_pil [example_image] [0] example_detector
        (\<lambda>ims. [\<lparr>seg_scores = [995 / 1000], seg_masks = [example_mask]\<rparr>]) (384, 384) (5 / 100) example_config
   = Inr ([d], h') \<and> d ''mask'' = Some (Img 2) \<and> d ''segmentation_accurancy'' = Some (Float (995 / 1000))"
  by (simp add: get_jewellery_image_impl_def jewellery_detect_crop_mask_def jewellery_detection_get_rx_ry_def
        aggregate_prediction_eq crop_image_def alloc_def jewellery_mask_def result_entry_def
        of_opt_img_def of_opt_float_def process_item_def compose_item_def get_img_def get_float_def
        putalpha_def clean_image_with_mask_def convert_RGB_def composite_def
        clean_alpha_def np_clip_def uint8_of_float_def Let_def)

lemma example_compose:
  "compose_item example_pil example_config [example_image, example_mask] 0 1 =
     Inr (8, [example_image, example_mask,
          \<lparr>isize = (1, 1), bands = [[10], [20], [30], [200]]\<rparr>, example_mask,
          \<lparr>isize = (1, 1), bands = [[10], [20], [30], [255]]\<rparr>,
          example_image, example_image, example_mask, example_image])"
  by (simp add: compose_item_def alloc_def putalpha_def clean_image_with_mask_def convert_RGB_def
        composite_def clean_alpha_def np_clip_def uint8_of_float_def Let_def)

lemma example_pil_contract: "pil_contract example_pil"
  by (simp add: pil_contract_def)

lemma example_clean_some:
  "clean_image_with_mask [\<lparr>isize = (1, 1), bands = [[10], [20], [30], [200]]\<rparr>] 0 (Some (9 / 10)) (1 / 10) = Inr (1, [\<lparr>isize = (1, 1), bands = [[10], [20], [30], [200]]\<rparr>, \<lparr>isize = (1, 1), bands = [[10], [20], [30], [255]]\<rparr>])"
  by (simp add: clean_image_with_mask_def alloc_def clean_alpha_def np_clip_def uint8_of_float_def)

lemma example_clean_none:
  "clean_image_with_mask [\<lparr>isize = (1, 1), bands = [[10], [20], [30], [200]]\<rparr>] 0 None (1 / 10) = Inr (0, [\<lparr>isize = (1, 1), bands = [[10], [20], [30], [200]]\<rparr>])"
  by (simp add: clean_image_with_mask_def)

section \<open>The claims\<close>

subsection \<open>Claim C1: how many boxes are merged\<close>

text \<open>
  C1, as amended. For a detection with at least one score (and as many boxes as scores), the
  threshold of the loop is \<open>max(STEPS_FOR_THRESHOLD) = 0.8\<close> converted to single precision,
  \<open>13421773 / 16777216\<close>; whatever ladder is iterated, the count the loop leaves in
  \<open>ind_max\<close> is the count of scores strictly above that number, which is the count of scores
  strictly above 0.8 when no score lies above 0.8 and at or below that number; over the ladder
  of the program the loop executes one body when the count is positive and all four otherwise;
  the number of boxes selected is the count, or 1 when the count is zero, and then the selection
  is box 0 alone, a box of the largest score when the scores are in descending order; the
  aggregation raises no exception.
\<close>

theorem ladder_selection_count:
  assumes "scores p \<noteq> []" and "length (boxes p) = length (scores p)"
  shows "py_max STEPS_FOR_THRESHOLD = Inr (8 / 10)
       \<and> float32_of (8 / 10) = 13421773 / 16777216
       \<and> (\<forall>ts. ts \<noteq> [] \<longrightarrow>
            (\<exists>steps. ladder_loop ts (scores p) (None, 0) =
                        Inr (Some (count_gt (float32_of (8 / 10)) (scores p)), steps)))
       \<and> ladder_loop STEPS_FOR_THRESHOLD (scores p) (None, 0) =
            Inr (Some (count_gt (float32_of (8 / 10)) (scores p)),
                 if 0 < count_gt (float32_of (8 / 10)) (scores p) then 1 else 4)
       \<and> select_ind_max (scores p) =
            Inr (if 0 < count_gt (float32_of (8 / 10)) (scores p)
                 then count_gt (float32_of (8 / 10)) (scores p) else 1)
       \<and> length (pred_boxs_good p (selected_count_float32 (scores p))) = selected_count_float32 (scores p)
       \<and> (count_gt (float32_of (8 / 10)) (scores p) = 0 \<longrightarrow>
            pred_boxs_good p (selected_count_float32 (scores p)) = [boxes p ! 0])
       \<and> (count_gt (float32_of (8 / 10)) (scores p) = 0 \<and> sorted_wrt (\<ge>) (scores p) \<longrightarrow>
            (\<exists>i < length (scores p).
               pred_boxs_good p (selected_count_float32 (scores p)) = [boxes p ! i] \<and>
               scores p ! i = Max (set (scores p))))
       \<and> ((\<forall>s \<in> set (scores p). s \<le> 8 / 10 \<or> float32_of (8 / 10) < s) \<longrightarrow>
            count_gt (float32_of (8 / 10)) (scores p) = count_gt (8 / 10) (scores p))
       \<and> (\<exists>r. aggregate_prediction model_shape k p = Inr r)"
proof -
  have one: "pred_boxs_good p (selected_count_float32 (scores p)) = [boxes p ! 0]"
    if "count_gt (float32_of (8 / 10)) (scores p) = 0"
  proof -
    from that have "selected_count_float32 (scores p) = 1" by (simp add: selected_count_float32_def)
    moreover from assms have "boxes p \<noteq> []" by auto
    ultimately show ?thesis
      by (cases "boxes p") (simp_all add: pred_boxs_good_def)
  qed
  have top: "\<exists>i < length (scores p).
               pred_boxs_good p (selected_count_float32 (scores p)) = [boxes p ! i] \<and>
               scores p ! i = Max (set (scores p))"
    if z: "count_gt (float32_of (8 / 10)) (scores p) = 0" and so: "sorted_wrt (\<ge>) (scores p)"
  proof -
    from assms(1) obtain s ss where sc: "scores p = s # ss" by (cases "scores p") auto
    from so have le: "\<forall>x \<in> set (scores p). x \<le> s" unfolding sc by auto
    have "Max (set (scores p)) = s"
    proof (rule Max_eqI)
      show "finite (set (scores p))" by simp
      show "y \<le> s" if "y \<in> set (scores p)" for y using le that by blast
      show "s \<in> set (scores p)" by (simp add: sc)
    qed
    with one [OF z] sc show ?thesis by (intro exI [of _ 0]) simp
  qed
  have ex: "\<exists>r. aggregate_prediction model_shape k p = Inr r"
    using aggregate_prediction_eq [OF assms] by blast
  show ?thesis
    using ladder_loop_any_ladder [of _ "scores p"] one top ex count_gt_float32_threshold [of "scores p"]
    by (simp add: py_max_steps float32_of_threshold [symmetric] ladder_loop_steps
          select_ind_max_eq [unfolded selected_count_float32_def] pred_boxs_good_length [OF assms])
qed

theorem ladder_selection_count_witness:
  "scores \<lparr>boxes = [(10, 20, 100, 200), (5, 30, 90, 250)], scores = [79 / 100, 2 / 10]\<rparr> \<noteq> []
   \<and> length (boxes \<lparr>boxes = [(10, 20, 100, 200), (5, 30, 90, 250)], scores = [79 / 100, 2 / 10]\<rparr>) = length (scores \<lparr>boxes = [(10, 20, 100, 200), (5, 30, 90, 250)], scores = [79 / 100, 2 / 10]\<rparr>)
   \<and> count_gt (float32_of (8 / 10)) [79 / 100, 2 / 10] = 0
   \<and> sorted_wrt (\<ge>) [79 / 100, 2 / 10 :: real]
   \<and> (79 / 100 :: real) \<le> 8 / 10 \<and> (2 / 10 :: real) \<le> 8 / 10
   \<and> count_gt (8 / 10) [79 / 100, 2 / 10] = 0
   \<and> select_ind_max [79 / 100, 2 / 10] = Inr 1
   \<and> pred_boxs_good \<lparr>boxes = [(10, 20, 100, 200), (5, 30, 90, 250)], scores = [79 / 100, 2 / 10]\<rparr> 1 = [(10, 20, 100, 200)]
   \<and> ladder_loop STEPS_FOR_THRESHOLD [79 / 100, 2 / 10] (None, 0) = Inr (Some 0, 4)
   \<and> (\<exists>r. aggregate_prediction (384, 384) (5 / 100) \<lparr>boxes = [(10, 20, 100, 200), (5, 30, 90, 250)], scores = [79 / 100, 2 / 10]\<rparr> = Inr r)"
proof -
  have a: "scores \<lparr>boxes = [(10, 20, 100, 200), (5, 30, 90, 250)], scores = [79 / 100, 2 / 10]\<rparr> \<noteq> []" and b: "length (boxes \<lparr>boxes = [(10, 20, 100, 200), (5, 30, 90, 250)], scores = [79 / 100, 2 / 10]\<rparr>) = length (scores \<lparr>boxes = [(10, 20, 100, 200), (5, 30, 90, 250)], scores = [79 / 100, 2 / 10]\<rparr>)"
    by simp_all
  have c: "count_gt (float32_of (8 / 10)) [79 / 100, 2 / 10] = 0"
    and d: "sorted_wrt (\<ge>) [79 / 100, 2 / 10 :: real]"
    and e: "\<forall>s \<in> set [79 / 100, 2 / 10 :: real]. s \<le> 8 / 10 \<or> float32_of (8 / 10) < s"
    by (simp_all add: count_gt_def float32_of_threshold float32_of_threshold_simp)
  note t = ladder_selection_count [OF a b, of "(384, 384)" "5 / 100"]
  from t c e have 1: "count_gt (8 / 10) [79 / 100, 2 / 10] = 0" by simp
  from t c have 2: "select_ind_max [79 / 100, 2 / 10] = Inr 1" by simp
  from t c have 3: "pred_boxs_good \<lparr>boxes = [(10, 20, 100, 200), (5, 30, 90, 250)], scores = [79 / 100, 2 / 10]\<rparr> 1 = [(10, 20, 100, 200)]"
    by (simp add: selected_count_float32_def)
  from t c have 4: "ladder_loop STEPS_FOR_THRESHOLD [79 / 100, 2 / 10] (None, 0) = Inr (Some 0, 4)"
    by simp
  from t have 5: "\<exists>r. aggregate_prediction (384, 384) (5 / 100) \<lparr>boxes = [(10, 20, 100, 200), (5, 30, 90, 250)], scores = [79 / 100, 2 / 10]\<rparr> = Inr r" by blast
  have f: "(79 / 100 :: real) \<le> 8 / 10" "(2 / 10 :: real) \<le> 8 / 10" by simp_all
  from a b c d f 1 2 3 4 5 show ?thesis by (intro conjI)
qed

text \<open>
  C1 as stated fails at a score equal to 0.8 in single precision: of the scores 0.875 and
  \<open>13421773 / 16777216\<close> both are strictly above 0.8, and the program counts one, selects
  box 0 alone and returns it.
\<close>

theorem ladder_count_float32_counterexample:
  "(8 / 10 :: real) < 13421773 / 16777216
   \<and> count_gt (8 / 10) [7 / 8, 13421773 / 16777216] = 2
   \<and> selected_count [7 / 8, 13421773 / 16777216] = 2
   \<and> select_ind_max [7 / 8, 13421773 / 16777216] = Inr 1
   \<and> pred_boxs_good \<lparr>boxes = [(96, 96, 192, 192), (48, 48, 288, 288)], scores = [7 / 8, 13421773 / 16777216]\<rparr> 1 = [(96, 96, 192, 192)]
   \<and> aggregate_prediction (384, 384) 0 \<lparr>boxes = [(96, 96, 192, 192), (48, 48, 288, 288)], scores = [7 / 8, 13421773 / 16777216]\<rparr> = Inr ((1 / 4, 1 / 4, 1 / 2, 1 / 2), 7 / 8)"
proof -
  have s: "select_ind_max [7 / 8, 13421773 / 16777216] = Inr 1"
    by (simp add: select_ind_max_eq selected_count_float32_def count_gt_def float32_of_threshold float32_of_threshold_simp)
  have "scores \<lparr>boxes = [(96, 96, 192, 192), (48, 48, 288, 288)], scores = [7 / 8, 13421773 / 16777216]\<rparr> \<noteq> []" "length (boxes \<lparr>boxes = [(96, 96, 192, 192), (48, 48, 288, 288)], scores = [7 / 8, 13421773 / 16777216]\<rparr>) = length (scores \<lparr>boxes = [(96, 96, 192, 192), (48, 48, 288, 288)], scores = [7 / 8, 13421773 / 16777216]\<rparr>)" by simp_all
  from aggregate_prediction_eq [OF this, of "(384, 384)" 0]
  have "aggregate_prediction (384, 384) 0 \<lparr>boxes = [(96, 96, 192, 192), (48, 48, 288, 288)], scores = [7 / 8, 13421773 / 16777216]\<rparr> = Inr ((1 / 4, 1 / 4, 1 / 2, 1 / 2), 7 / 8)"
    by (simp add: selected_count_float32_def count_gt_def float32_of_threshold float32_of_threshold_simp pred_boxs_good_def
          union_box_def normalise_box_def apply_margin_def)
  with s show ?thesis
    by (simp add: count_gt_def selected_count_def pred_boxs_good_def)
qed

subsection \<open>Claim C7: the reported detection confidence\<close>

text \<open>
  C7. For a detection with at least one score, the confidence returned with the box is element 0
  of the score list, whatever number of boxes was merged.
\<close>

theorem detection_confidence_is_first_score:
  assumes "scores p \<noteq> []" and "length (boxes p) = length (scores p)"
  shows "\<exists>b. aggregate_prediction model_shape k p = Inr (b, scores p ! 0)"
  using aggregate_prediction_eq [OF assms] by blast

theorem detection_confidence_is_first_score_witness:
  "scores \<lparr>boxes = [(1, 2, 3, 4), (0, 0, 9, 9), (5, 5, 6, 6)], scores = [9 / 10, 85 / 100, 3 / 10]\<rparr> \<noteq> []
   \<and> length (boxes \<lparr>boxes = [(1, 2, 3, 4), (0, 0, 9, 9), (5, 5, 6, 6)], scores = [9 / 10, 85 / 100, 3 / 10]\<rparr>)
       = length (scores \<lparr>boxes = [(1, 2, 3, 4), (0, 0, 9, 9), (5, 5, 6, 6)], scores = [9 / 10, 85 / 100, 3 / 10]\<rparr>)
   \<and> (\<exists>b. aggregate_prediction (384, 384) 0
          \<lparr>boxes = [(1, 2, 3, 4), (0, 0, 9, 9), (5, 5, 6, 6)], scores = [9 / 10, 85 / 100, 3 / 10]\<rparr>
        = Inr (b, 9 / 10))"
  using detection_confidence_is_first_score
    [of "\<lparr>boxes = [(1, 2, 3, 4), (0, 0, 9, 9), (5, 5, 6, 6)], scores = [9 / 10, 85 / 100, 3 / 10]\<rparr>" "(384, 384)" 0]
  by simp

subsection \<open>Claim C5: union box, normalisation and margin\<close>

text \<open>
  C5. With \<open>n\<close> the number of boxes the selection of lines 133 to 139 returns (at least
  one, at most all), the first \<open>n\<close> boxes are merged into their union bounding box (minimum
  of the \<open>x1\<close> and \<open>y1\<close>, maximum of the \<open>x2\<close> and \<open>y2\<close>), each coordinate is divided by
  the model input width or height, and a positive margin is subtracted from the lower corner,
  not below 0, and added to the upper corner, not above 1; without a positive margin the box is
  left as it is. The box \<open>(0, 0, 1, 1)\<close> with margin 0.1 stays \<open>(0, 0, 1, 1)\<close>.
\<close>

theorem union_box_normalised_margin:
  assumes "scores p \<noteq> []" and "length (boxes p) = length (scores p)"
    and "0 < fst model_shape" and "0 < snd model_shape"
  shows "(\<exists>n. select_ind_max (scores p) = Inr n \<and> 0 < n \<and> n \<le> length (boxes p) \<and>
              aggregate_prediction model_shape k p =
                Inr (apply_margin k (normalise_box model_shape (union_box (take n (boxes p)))),
                     scores p ! 0))
       \<and> (0 < k \<longrightarrow> apply_margin k (rx1, ry1, rx2, ry2) =
            (max (rx1 - k) 0, max (ry1 - k) 0, min (rx2 + k) 1, min (ry2 + k) 1))
       \<and> (\<not> 0 < k \<longrightarrow> apply_margin k (rx1, ry1, rx2, ry2) = (rx1, ry1, rx2, ry2))
       \<and> apply_margin (1 / 10) (0, 0, 1, 1) = (0, 0, 1, 1)"
proof -
  from selected_count_float32_bounds [OF assms(1)] assms(2)
  have "0 < selected_count_float32 (scores p)" "selected_count_float32 (scores p) \<le> length (boxes p)"
    by simp_all
  with select_ind_max_eq [of "scores p"] aggregate_prediction_eq [OF assms(1,2), of model_shape k]
  have "\<exists>n. select_ind_max (scores p) = Inr n \<and> 0 < n \<and> n \<le> length (boxes p) \<and>
              aggregate_prediction model_shape k p =
                Inr (apply_margin k (normalise_box model_shape (union_box (take n (boxes p)))),
                     scores p ! 0)"
    unfolding pred_boxs_good_def by blast
  then show ?thesis by (simp add: apply_margin_def)
qed

theorem union_box_normalised_margin_witness:
  "scores \<lparr>boxes = [(0, 96, 192, 384), (96, 0, 384, 192), (7, 7, 8, 8)], scores = [9 / 10, 85 / 100, 3 / 10]\<rparr> \<noteq> []
   \<and> length (boxes \<lparr>boxes = [(0, 96, 192, 384), (96, 0, 384, 192), (7, 7, 8, 8)], scores = [9 / 10, 85 / 100, 3 / 10]\<rparr>) = length (scores \<lparr>boxes = [(0, 96, 192, 384), (96, 0, 384, 192), (7, 7, 8, 8)], scores = [9 / 10, 85 / 100, 3 / 10]\<rparr>)
   \<and> (0 :: real) < fst (384 :: real, 384 :: real) \<and> (0 :: real) < snd (384 :: real, 384 :: real)
   \<and> (0 :: real) < 1 / 10
   \<and> select_ind_max [9 / 10, 85 / 100, 3 / 10] = Inr 2
   \<and> union_box [(0, 96, 192, 384), (96, 0, 384, 192)] = (0, 0, 384, 384)
   \<and> aggregate_prediction (384, 384) (1 / 10) \<lparr>boxes = [(0, 96, 192, 384), (96, 0, 384, 192), (7, 7, 8, 8)], scores = [9 / 10, 85 / 100, 3 / 10]\<rparr> = Inr ((0, 0, 1, 1), 9 / 10)
   \<and> apply_margin (1 / 10) (1 / 4, 1 / 4, 19 / 20, 1 / 2) = (3 / 20, 3 / 20, 1, 6 / 10)"
proof -
  have a: "scores \<lparr>boxes = [(0, 96, 192, 384), (96, 0, 384, 192), (7, 7, 8, 8)], scores = [9 / 10, 85 / 100, 3 / 10]\<rparr> \<noteq> []" and b: "length (boxes \<lparr>boxes = [(0, 96, 192, 384), (96, 0, 384, 192), (7, 7, 8, 8)], scores = [9 / 10, 85 / 100, 3 / 10]\<rparr>) = length (scores \<lparr>boxes = [(0, 96, 192, 384), (96, 0, 384, 192), (7, 7, 8, 8)], scores = [9 / 10, 85 / 100, 3 / 10]\<rparr>)"
    and c: "(0 :: real) < fst (384 :: real, 384 :: real)" and d: "(0 :: real) < snd (384 :: real, 384 :: real)"
    and e: "(0 :: real) < 1 / 10"
    by simp_all
  have n: "select_ind_max [9 / 10, 85 / 100, 3 / 10] = Inr 2"
    by (simp add: select_ind_max_eq selected_count_float32_def count_gt_def float32_of_threshold float32_of_threshold_simp)
  have u: "union_box [(0, 96, 192, 384), (96, 0, 384, 192)] = (0, 0, 384, 384)"
    by (simp add: union_box_def)
  note t = union_box_normalised_margin [OF a b c d, of "1 / 10" "1 / 4" "1 / 4" "19 / 20" "1 / 2"]
  from t n u have 1: "aggregate_prediction (384, 384) (1 / 10) \<lparr>boxes = [(0, 96, 192, 384), (96, 0, 384, 192), (7, 7, 8, 8)], scores = [9 / 10, 85 / 100, 3 / 10]\<rparr> = Inr ((0, 0, 1, 1), 9 / 10)"
    by (auto simp: normalise_box_def apply_margin_def)
  from t e have 2: "apply_margin (1 / 10) (1 / 4, 1 / 4, 19 / 20, 1 / 2) = (3 / 20, 3 / 20, 1, 6 / 10)"
    by simp
  from a b c d e n u 1 2 show ?thesis by (intro conjI)
qed

subsection \<open>Claim C3: the threshold and the cleaned alpha\<close>

text \<open>
  C3. The claim is that raising the threshold never raises the cleaned alpha of a pixel, as the
  documentation of \<open>clean_image_with_mask\<close> has it (values above the threshold become 1). The
  program adds \<open>r - 0.5\<close>: on the one-pixel image with alpha 0 and floor 0.1 the cleaned alpha
  is 25 for the threshold 0.5 and 102 for the threshold 0.9.
\<close>

theorem clean_threshold_raises_alpha:
  "clean_image_with_mask [\<lparr>isize = (1, 1), bands = [[7], [8], [9], [0]]\<rparr>] 0 (Some (5 / 10)) (1 / 10)
       = Inr (1, [\<lparr>isize = (1, 1), bands = [[7], [8], [9], [0]]\<rparr>, \<lparr>isize = (1, 1), bands = [[7], [8], [9], [25]]\<rparr>])
   \<and> clean_image_with_mask [\<lparr>isize = (1, 1), bands = [[7], [8], [9], [0]]\<rparr>] 0 (Some (9 / 10)) (1 / 10)
       = Inr (1, [\<lparr>isize = (1, 1), bands = [[7], [8], [9], [0]]\<rparr>, \<lparr>isize = (1, 1), bands = [[7], [8], [9], [102]]\<rparr>])
   \<and> (5 / 10 :: real) < 9 / 10
   \<and> unat (25 :: 8 word) < unat (102 :: 8 word)"
  by (simp add: clean_image_with_mask_def alloc_def clean_alpha_def np_clip_def uint8_of_float_def)

subsection \<open>Claim C4: the floor of the cleaned alpha\<close>

text \<open>
  C4, as amended. For a floor between 0 and 1 and every threshold, every pixel of the cleaned
  alpha band is at least the integer part of \<open>min_blur * 255\<close>, so it is above
  \<open>min_blur * 255 - 1\<close>; the band keeps its length and the call raises nothing on an image
  of four bands.
\<close>

theorem clean_floor_truncated:
  assumes "0 \<le> mb" and "mb \<le> 1" and "4 \<le> length (bands (h ! img))"
  shows "\<exists>p h'.
           clean_image_with_mask h img (Some r) mb = Inr (p, h') \<and>
           length (bands (h' ! p) ! 3) = length (bands (h ! img) ! 3) \<and>
           (\<forall>a \<in> set (bands (h' ! p) ! 3).
              \<lfloor>mb * 255\<rfloor> \<le> int (unat a) \<and> mb * 255 - 1 < real (unat a))"
proof -
  let ?a = "bands (h ! img) ! 3"
  let ?out = "h @ [(h ! img)\<lparr>bands := (bands (h ! img))[3 := map (clean_alpha r mb) ?a]\<rparr>]"
  have fl: "\<lfloor>mb * 255\<rfloor> \<le> int (unat (clean_alpha r mb a)) \<and> mb * 255 - 1 < real (unat (clean_alpha r mb a))" for a
  proof -
    have 1: "\<lfloor>mb * 255\<rfloor> \<le> int (unat (clean_alpha r mb a))"
      by (rule clean_alpha_floor [OF assms(1,2)])
    have "mb * 255 - 1 < real_of_int \<lfloor>mb * 255\<rfloor>" by linarith
    also have "\<dots> \<le> real_of_int (int (unat (clean_alpha r mb a)))"
      using 1 by (simp only: of_int_le_iff)
    finally show ?thesis using 1 by simp
  qed
  have e: "clean_image_with_mask h img (Some r) mb = Inr (length h, ?out)"
    by (rule clean_image_with_mask_Some [OF assms(3)])
  have b: "bands (?out ! length h) ! 3 = map (clean_alpha r mb) ?a"
    by (rule cleaned_band [OF assms(3)])
  have l: "length (bands (?out ! length h) ! 3) = length ?a"
    unfolding b by simp
  have f: "\<forall>a \<in> set (bands (?out ! length h) ! 3).
              \<lfloor>mb * 255\<rfloor> \<le> int (unat a) \<and> mb * 255 - 1 < real (unat a)"
    unfolding b using fl by auto
  from e l f show ?thesis by blast
qed

theorem clean_floor_truncated_witness:
  "(0 :: real) \<le> 1 / 10 \<and> (1 / 10 :: real) \<le> 1
   \<and> 4 \<le> length (bands ([\<lparr>isize = (2, 1), bands = [[7, 7], [8, 8], [9, 9], [0, 200]]\<rparr>] ! 0))
   \<and> \<lfloor>(1 / 10 :: real) * 255\<rfloor> = 25
   \<and> clean_image_with_mask [\<lparr>isize = (2, 1), bands = [[7, 7], [8, 8], [9, 9], [0, 200]]\<rparr>] 0 (Some (5 / 10)) (1 / 10)
       = Inr (1, [\<lparr>isize = (2, 1), bands = [[7, 7], [8, 8], [9, 9], [0, 200]]\<rparr>, \<lparr>isize = (2, 1), bands = [[7, 7], [8, 8], [9, 9], [25, 200]]\<rparr>])
   \<and> (\<exists>p h'.
         clean_image_with_mask [\<lparr>isize = (2, 1), bands = [[7, 7], [8, 8], [9, 9], [0, 200]]\<rparr>] 0 (Some (5 / 10)) (1 / 10) = Inr (p, h') \<and>
         length (bands (h' ! p) ! 3) = length (bands ([\<lparr>isize = (2, 1), bands = [[7, 7], [8, 8], [9, 9], [0, 200]]\<rparr>] ! 0) ! 3) \<and>
         (\<forall>a \<in> set (bands (h' ! p) ! 3).
            \<lfloor>(1 / 10 :: real) * 255\<rfloor> \<le> int (unat a) \<and> (1 / 10) * 255 - 1 < real (unat a)))"
proof -
  have a: "(0 :: real) \<le> 1 / 10" and b: "(1 / 10 :: real) \<le> 1" by simp_all
  have c: "4 \<le> length (bands ([\<lparr>isize = (2, 1), bands = [[7, 7], [8, 8], [9, 9], [0, 200]]\<rparr>] ! 0))" by simp
  have d: "\<lfloor>(1 / 10 :: real) * 255\<rfloor> = 25" by simp
  have e: "clean_image_with_mask [\<lparr>isize = (2, 1), bands = [[7, 7], [8, 8], [9, 9], [0, 200]]\<rparr>] 0 (Some (5 / 10)) (1 / 10)
       = Inr (1, [\<lparr>isize = (2, 1), bands = [[7, 7], [8, 8], [9, 9], [0, 200]]\<rparr>, \<lparr>isize = (2, 1), bands = [[7, 7], [8, 8], [9, 9], [25, 200]]\<rparr>])"
    by (simp add: clean_image_with_mask_def alloc_def clean_alpha_def np_clip_def uint8_of_float_def)
  note t = clean_floor_truncated [OF a b c, of "5 / 10"]
  from a b c d e t show ?thesis by (intro conjI)
qed

text \<open>
  C4 as stated fails: with the floor 0.1 a pixel of alpha 0 is stored as 25, below
  \<open>0.1 * 255 = 25.5\<close>.
\<close>

theorem clean_floor_counterexample:
  "clean_image_with_mask [\<lparr>isize = (1, 1), bands = [[7], [8], [9], [0]]\<rparr>] 0 (Some (5 / 10)) (1 / 10)
       = Inr (1, [\<lparr>isize = (1, 1), bands = [[7], [8], [9], [0]]\<rparr>, \<lparr>isize = (1, 1), bands = [[7], [8], [9], [25]]\<rparr>])
   \<and> real (unat (25 :: 8 word)) < (1 / 10) * 255"
  by (simp add: clean_image_with_mask_def alloc_def clean_alpha_def np_clip_def uint8_of_float_def)

subsection \<open>Claim C2: a segmentation failure of one image\<close>

text \<open>
  C2. The claim is that an image whose segmentation produces no output gets an absent mask and
  confidence while the batch still returns one result per image. In the program the \<open>try\<close>
  encloses the loop over the predictions: on a batch of two images whose first segmentation is
  empty, \<open>jewellery_mask\<close> returns the single pair \<open>(None, None)\<close>, and both
  \<open>jewellery_detect_crop_mask\<close> and \<open>get_jewellery_image_\<close> end with \<open>IndexError\<close>
  at \<open>masks[1]\<close>.
\<close>

theorem segmentation_failure_aborts_batch:
  "jewellery_mask [example_image, example_image, example_image, example_image]
       [\<lparr>seg_scores = [], seg_masks = []\<rparr>, \<lparr>seg_scores = [995 / 1000], seg_masks = [example_mask]\<rparr>]
     = ([(None, None)], [example_image, example_image, example_image, example_image])
   \<and> jewellery_detect_crop_mask example_pil [example_image, example_image] [0, 1] example_detector
        (\<lambda>ims. [\<lparr>seg_scores = [], seg_masks = []\<rparr>, \<lparr>seg_scores = [995 / 1000], seg_masks = [example_mask]\<rparr>])
        (384, 384) (5 / 100)
     = Inl IndexError
   \<and> get_jewellery_image_impl example_pil [example_image, example_image] [0, 1] example_detector
        (\<lambda>ims. [\<lparr>seg_scores = [], seg_masks = []\<rparr>, \<lparr>seg_scores = [995 / 1000], seg_masks = [example_mask]\<rparr>])
        (384, 384) (5 / 100) example_config
     = Inl IndexError"
  by (simp add: get_jewellery_image_impl_def jewellery_detect_crop_mask_def jewellery_detection_get_rx_ry_def
        aggregate_prediction_eq crop_image_def alloc_def jewellery_mask_def upt_rec)

subsection \<open>Claim C6: quality gating\<close>

text \<open>
  C6, as amended. For every image of the batch whose mask is present in the returned record,
  with \<open>show_bad_results\<close> false: \<open>cropped_image\<close> is \<open>None\<close> exactly when the
  detection confidence is below \<open>threshold_detect\<close> and is an image otherwise;
  \<open>image_segmented\<close> is \<open>None\<close> exactly when the segmentation confidence is below
  \<open>threshold_segmentation\<close> and is an image otherwise; the original image and both
  confidences are in the record, the detection confidence being score 0 of the detector.
\<close>

theorem gating_when_mask_present:
  assumes "get_jewellery_image_impl L h imgs md mm model_shape k C = Inr (result, h')"
    and "i < length imgs" and "(result ! i) ''mask'' = Some (Img m)" and "\<not> show_bad_results C"
  shows "\<exists>a s. ((result ! i) ''cropped_image'' = Some PyNone \<longleftrightarrow> a < threshold_detect C) \<and>
               (\<not> a < threshold_detect C \<longrightarrow> (\<exists>c. (result ! i) ''cropped_image'' = Some (Img c))) \<and>
               ((result ! i) ''image_segmented'' = Some PyNone \<longleftrightarrow> s < threshold_segmentation C) \<and>
               (\<not> s < threshold_segmentation C \<longrightarrow> (\<exists>q. (result ! i) ''image_segmented'' = Some (Img q))) \<and>
               (result ! i) ''image_original'' = Some (Img (imgs ! i)) \<and>
               (result ! i) ''detection_accurancy'' = Some (Float a) \<and>
               (result ! i) ''segmentation_accurancy'' = Some (Float s) \<and>
               a = scores (md (map ((!) h) imgs) ! i) ! 0"
proof -
  from get_jewellery_image_impl_Inr [OF assms(1)] obtain predict h1 where
    j: "jewellery_detect_crop_mask L h imgs md mm model_shape k = Inr (predict, h1)"
    and l: "item_loop L C imgs [0..<length imgs] (predict, h1) = Inr (result, h')"
    by blast
  have d: "distinct [0..<length imgs]" and ik: "i \<in> set [0..<length imgs]"
    using assms(2) by simp_all
  from item_loop_nth [OF l d, of i] ik obtain h2 h3 where
    p: "process_item L C h2 (predict ! i) (imgs ! i) = Inr (result ! i, h3)" and il: "i < length predict"
    by blast
  from process_item_frame [OF p] assms(3) have mk: "(predict ! i) ''mask'' = Some (Img m)" by simp
  from item_loop_present [OF l d ik mk] obtain c a s q where
    e: "(predict ! i) ''cropped_image'' = Some (Img c)"
       "(predict ! i) ''detection_accurancy'' = Some (Float a)"
       "(predict ! i) ''segmentation_accurancy'' = Some (Float s)"
       "result ! i = (predict ! i)
             (''image_segmented'' \<mapsto> (if s < threshold_segmentation C \<and> \<not> show_bad_results C then PyNone else Img q),
              ''cropped_image'' \<mapsto> (if a < threshold_detect C \<and> \<not> show_bad_results C then PyNone else Img c),
              ''image_original'' \<mapsto> Img (imgs ! i))"
    by blast
  from jewellery_detect_crop_mask_result [OF j] il e(2)
  have a: "a = scores (md (map ((!) h) imgs) ! i) ! 0" by simp
  show ?thesis
    by (rule exI [of _ a], rule exI [of _ s]) (simp add: e assms(4) a [symmetric])
qed

theorem gating_when_mask_present_witness:
  "\<exists>d h'. get_jewellery_image_impl example_pil [example_image] [0] example_detector
        (\<lambda>ims. [\<lparr>seg_scores = [995 / 1000], seg_masks = [example_mask]\<rparr>]) (384, 384) (5 / 100) example_config
       = Inr ([d], h')
     \<and> (0 :: nat) < length [0 :: nat] \<and> ([d] ! 0) ''mask'' = Some (Img 2) \<and> \<not> show_bad_results example_config
     \<and> (5 / 10 :: real) < threshold_detect example_config
     \<and> d ''cropped_image'' = Some PyNone
     \<and> d ''detection_accurancy'' = Some (Float (5 / 10))
     \<and> d ''image_original'' = Some (Img 0)
     \<and> (\<exists>q. d ''image_segmented'' = Some (Img q))"
proof -
  from example_run_present obtain d h' where
    run: "get_jewellery_image_impl example_pil [example_image] [0] example_detector
        (\<lambda>ims. [\<lparr>seg_scores = [995 / 1000], seg_masks = [example_mask]\<rparr>]) (384, 384) (5 / 100) example_config
       = Inr ([d], h')"
    and mk: "([d] ! 0) ''mask'' = Some (Img 2)"
    and sg: "d ''segmentation_accurancy'' = Some (Float (995 / 1000))"
    by auto
  have i: "(0 :: nat) < length [0 :: nat]" and sb: "\<not> show_bad_results example_config" by simp_all
  from gating_when_mask_present [OF run i mk sb]
  have "(5 / 10 :: real) < threshold_detect example_config
     \<and> d ''cropped_image'' = Some PyNone
     \<and> d ''detection_accurancy'' = Some (Float (5 / 10))
     \<and> d ''image_original'' = Some (Img 0)
     \<and> (\<exists>q. d ''image_segmented'' = Some (Img q))"
    using sg by auto
  with run i mk sb show ?thesis by blast
qed

text \<open>
  C6 as stated fails for an image without mask: with detection confidence 0.5 below the
  threshold 0.98 and \<open>show_bad_results\<close> false, \<open>cropped_image\<close> is still the crop and the
  record has no \<open>image_original\<close>.
\<close>

theorem gating_skipped_without_mask_counterexample:
  "get_jewellery_image_impl example_pil [example_image] [0] example_detector
        (\<lambda>ims. [\<lparr>seg_scores = [], seg_masks = []\<rparr>]) (384, 384) (5 / 100) example_config
     = Inr ([[''cropped_image'' \<mapsto> Img 1, ''detection_accurancy'' \<mapsto> Float (5 / 10),
              ''mask'' \<mapsto> PyNone, ''segmentation_accurancy'' \<mapsto> PyNone]],
            [example_image, example_image])
   \<and> \<not> show_bad_results example_config
   \<and> (5 / 10 :: real) < threshold_detect example_config
   \<and> [''cropped_image'' \<mapsto> Img 1, ''detection_accurancy'' \<mapsto> Float (5 / 10),
       ''mask'' \<mapsto> PyNone, ''segmentation_accurancy'' \<mapsto> PyNone] ''cropped_image'' = Some (Img 1)
   \<and> [''cropped_image'' \<mapsto> Img 1, ''detection_accurancy'' \<mapsto> Float (5 / 10),
       ''mask'' \<mapsto> PyNone, ''segmentation_accurancy'' \<mapsto> PyNone] ''image_original'' = None"
  using example_run_absent by simp

subsection \<open>Claim C8: the blend mask and the size of the composite\<close>

text \<open>
  C8. With a library that keeps its contract, a crop of mode RGB or RGBA, a mask of mode L and a
  blur radius of at least 0, the compositing stage returns an image of the size of the crop, and
  that image is the composite of the RGB bands of the crop over their blur under the raw mask
  resized to the size of the crop: the clean-up threshold and floor do not enter, any other
  choice of them gives the same image.
\<close>

theorem compositor_blends_with_raw_mask:
  assumes "pil_contract L" and "c < length h" and "m < length h"
    and "length (bands (h ! c)) = 3 \<or> length (bands (h ! c)) = 4"
    and "length (bands (h ! m)) = 1" and "0 \<le> gaussian_blur C"
  shows "\<exists>q h'. compose_item L C h c m = Inr (q, h') \<and> q < length h' \<and>
           isize (h' ! q) = isize (h ! c) \<and>
           composite L (convert_RGB (h ! c))
             (pil_gaussian_blur L (gaussian_blur C) (convert_RGB (h ! c)))
             (pil_resize L (h ! m) (isize (h ! c))) = Inr (h' ! q) \<and>
           (\<exists>q2 h2. compose_item L (C\<lparr>threshold_clean_mask := r, min_blur := mb\<rparr>) h c m = Inr (q2, h2) \<and>
                     h2 ! q2 = h' ! q)"
proof -
  let ?C = "C\<lparr>threshold_clean_mask := r, min_blur := mb\<rparr>"
  from assms(6) have g: "0 \<le> gaussian_blur ?C" by simp
  from compose_item_result [OF assms(1-5) assms(6)] obtain q h' where
    1: "compose_item L C h c m = Inr (q, h')" "q < length h'" "isize (h' ! q) = isize (h ! c)"
       "composite L (convert_RGB (h ! c))
             (pil_gaussian_blur L (gaussian_blur C) (convert_RGB (h ! c)))
             (pil_resize L (h ! m) (isize (h ! c))) = Inr (h' ! q)"
    by blast
  from compose_item_result [OF assms(1-5) g] obtain q2 h2 where
    2: "compose_item L ?C h c m = Inr (q2, h2)"
       "composite L (convert_RGB (h ! c))
             (pil_gaussian_blur L (gaussian_blur ?C) (convert_RGB (h ! c)))
             (pil_resize L (h ! m) (isize (h ! c))) = Inr (h2 ! q2)"
    by blast
  from 1(4) 2(2) have "h2 ! q2 = h' ! q" by simp
  with 1 2(1) show ?thesis by blast
qed

theorem compositor_blends_with_raw_mask_witness:
  "pil_contract example_pil \<and> (0 :: nat) < length [example_image, example_mask]
   \<and> (1 :: nat) < length [example_image, example_mask]
   \<and> (length (bands ([example_image, example_mask] ! 0)) = 3 \<or> length (bands ([example_image, example_mask] ! 0)) = 4)
   \<and> length (bands ([example_image, example_mask] ! 1)) = 1
   \<and> 0 \<le> gaussian_blur example_config
   \<and> (\<exists>q h'. compose_item example_pil example_config [example_image, example_mask] 0 1 = Inr (q, h') \<and> q < length h' \<and>
           isize (h' ! q) = isize ([example_image, example_mask] ! 0) \<and>
           composite example_pil (convert_RGB ([example_image, example_mask] ! 0))
             (pil_gaussian_blur example_pil (gaussian_blur example_config) (convert_RGB ([example_image, example_mask] ! 0)))
             (pil_resize example_pil ([example_image, example_mask] ! 1) (isize ([example_image, example_mask] ! 0))) = Inr (h' ! q) \<and>
           (\<exists>q2 h2. compose_item example_pil (example_config\<lparr>threshold_clean_mask := None, min_blur := 5 / 10\<rparr>)
                        [example_image, example_mask] 0 1 = Inr (q2, h2) \<and>
                     h2 ! q2 = h' ! q))"
proof -
  have a: "pil_contract example_pil" by (rule example_pil_contract)
  have b: "(0 :: nat) < length [example_image, example_mask]" "(1 :: nat) < length [example_image, example_mask]"
    "length (bands ([example_image, example_mask] ! 0)) = 3 \<or> length (bands ([example_image, example_mask] ! 0)) = 4"
    "length (bands ([example_image, example_mask] ! 1)) = 1"
    "0 \<le> gaussian_blur example_config"
    by simp_all
  from compositor_blends_with_raw_mask [OF a b, where r = None and mb = "5 / 10"] a b show ?thesis by blast
qed

subsection \<open>Claim C9: no image is changed in place\<close>

text \<open>
  C9. The compositing stage leaves every object of the store it starts from as it was, the crop
  among them; the alpha band is put on the copy, the new object at the first free reference, and
  the composite is a further new object. The clean-up with a threshold returns a new object and
  leaves its argument as it was; without a threshold it returns its argument and the store
  unchanged. The whole call leaves every object of the caller's store as it was.
\<close>

theorem no_image_mutated_in_place:
  "(compose_item L C h c m = Inr (q, h1) \<longrightarrow>
      store_extends h h1 \<and> length h < q \<and> q < length h1 \<and>
      putalpha (h ! c) (pil_resize L ((h @ [h ! c]) ! m) (isize ((h @ [h ! c]) ! c))) = Inr (h1 ! length h) \<and>
      (c < length h \<longrightarrow> h1 ! c = h ! c))
   \<and> (clean_image_with_mask ha p (Some r) mb = Inr (p1, h2) \<longrightarrow>
        store_extends ha h2 \<and> p1 = length ha \<and> (p < length ha \<longrightarrow> h2 ! p = ha ! p))
   \<and> (clean_image_with_mask hb pb None mb' = Inr (p2, h3) \<longrightarrow> p2 = pb \<and> h3 = hb)
   \<and> (get_jewellery_image_impl L' hc imgs md mm model_shape k C' = Inr (result, h4) \<longrightarrow>
        store_extends hc h4 \<and> (\<forall>j < length hc. h4 ! j = hc ! j))"
proof (intro conjI impI)
  assume a: "compose_item L C h c m = Inr (q, h1)"
  note f = compose_item_frame [OF a]
  from f show "store_extends h h1" "length h < q" "q < length h1"
    "putalpha (h ! c) (pil_resize L ((h @ [h ! c]) ! m) (isize ((h @ [h ! c]) ! c))) = Inr (h1 ! length h)"
    by simp_all
  assume "c < length h"
  with f show "h1 ! c = h ! c" by (simp add: store_extends_nth)
next
  assume a: "clean_image_with_mask ha p (Some r) mb = Inr (p1, h2)"
  from clean_frame [OF a] show "store_extends ha h2" "p1 = length ha" by simp_all
  assume "p < length ha"
  with clean_frame [OF a] show "h2 ! p = ha ! p" by (simp add: store_extends_nth)
next
  assume a: "clean_image_with_mask hb pb None mb' = Inr (p2, h3)"
  from clean_frame [OF a] show "p2 = pb" "h3 = hb" by simp_all
next
  assume a: "get_jewellery_image_impl L' hc imgs md mm model_shape k C' = Inr (result, h4)"
  from get_jewellery_image_impl_frame [OF a] show "store_extends hc h4" .
  then show "\<forall>j < length hc. h4 ! j = hc ! j" by (simp add: store_extends_nth)
qed

theorem no_image_mutated_in_place_witness:
  "compose_item example_pil example_config [example_image, example_mask] 0 1 = Inr (8, [example_image, example_mask,
          \<lparr>isize = (1, 1), bands = [[10], [20], [30], [200]]\<rparr>, example_mask,
          \<lparr>isize = (1, 1), bands = [[10], [20], [30], [255]]\<rparr>,
          example_image, example_image, example_mask, example_image])
   \<and> [example_image, example_mask,
          \<lparr>isize = (1, 1), bands = [[10], [20], [30], [200]]\<rparr>, example_mask,
          \<lparr>isize = (1, 1), bands = [[10], [20], [30], [255]]\<rparr>,
          example_image, example_image, example_mask, example_image] ! 0 = [example_image, example_mask] ! 0
   \<and> [example_image, example_mask,
          \<lparr>isize = (1, 1), bands = [[10], [20], [30], [200]]\<rparr>, example_mask,
          \<lparr>isize = (1, 1), bands = [[10], [20], [30], [255]]\<rparr>,
          example_image, example_image, example_mask, example_image] ! length [example_image, example_mask] = \<lparr>isize = (1, 1), bands = [[10], [20], [30], [200]]\<rparr>
   \<and> clean_image_with_mask [\<lparr>isize = (1, 1), bands = [[10], [20], [30], [200]]\<rparr>] 0 (Some (9 / 10)) (1 / 10) = Inr (1, [\<lparr>isize = (1, 1), bands = [[10], [20], [30], [200]]\<rparr>, \<lparr>isize = (1, 1), bands = [[10], [20], [30], [255]]\<rparr>])
   \<and> [\<lparr>isize = (1, 1), bands = [[10], [20], [30], [200]]\<rparr>, \<lparr>isize = (1, 1), bands = [[10], [20], [30], [255]]\<rparr>] ! 0 = [\<lparr>isize = (1, 1), bands = [[10], [20], [30], [200]]\<rparr>] ! 0
   \<and> clean_image_with_mask [\<lparr>isize = (1, 1), bands = [[10], [20], [30], [200]]\<rparr>] 0 None (1 / 10) = Inr (0, [\<lparr>isize = (1, 1), bands = [[10], [20], [30], [200]]\<rparr>])
   \<and> (\<exists>result h4. get_jewellery_image_impl example_pil [example_image] [0] example_detector
        (\<lambda>ims. [\<lparr>seg_scores = [995 / 1000], seg_masks = [example_mask]\<rparr>]) (384, 384) (5 / 100) example_config = Inr (result, h4) \<and> store_extends [example_image] h4
         \<and> (\<forall>j < length [example_image]. h4 ! j = [example_image] ! j))"
proof -
  from example_run_present obtain d h4 where run: "get_jewellery_image_impl example_pil [example_image] [0] example_detector
        (\<lambda>ims. [\<lparr>seg_scores = [995 / 1000], seg_masks = [example_mask]\<rparr>]) (384, 384) (5 / 100) example_config = Inr ([d], h4)" by auto
  note t = no_image_mutated_in_place
    [of example_pil example_config "[example_image, example_mask]" 0 1 8 "[example_image, example_mask,
          \<lparr>isize = (1, 1), bands = [[10], [20], [30], [200]]\<rparr>, example_mask,
          \<lparr>isize = (1, 1), bands = [[10], [20], [30], [255]]\<rparr>,
          example_image, example_image, example_mask, example_image]"
        "[\<lparr>isize = (1, 1), bands = [[10], [20], [30], [200]]\<rparr>]" 0 "9 / 10" "1 / 10" 1 "[\<lparr>isize = (1, 1), bands = [[10], [20], [30], [200]]\<rparr>, \<lparr>isize = (1, 1), bands = [[10], [20], [30], [255]]\<rparr>]"
        "[\<lparr>isize = (1, 1), bands = [[10], [20], [30], [200]]\<rparr>]" 0 "1 / 10" 0 "[\<lparr>isize = (1, 1), bands = [[10], [20], [30], [200]]\<rparr>]"
        example_pil "[example_image]" "[0]" example_detector
        "\<lambda>ims. [\<lparr>seg_scores = [995 / 1000], seg_masks = [example_mask]\<rparr>]" "(384, 384)" "5 / 100"
        example_config "[d]" h4]
  have c0: "(0 :: nat) < length [example_image, example_mask]" and p0: "(0 :: nat) < length [\<lparr>isize = (1, 1), bands = [[10], [20], [30], [200]]\<rparr>]"
    by simp_all
  from t example_compose c0 have
    1: "[example_image, example_mask,
          \<lparr>isize = (1, 1), bands = [[10], [20], [30], [200]]\<rparr>, example_mask,
          \<lparr>isize = (1, 1), bands = [[10], [20], [30], [255]]\<rparr>,
          example_image, example_image, example_mask, example_image] ! 0 = [example_image, example_mask] ! 0"
       "putalpha ([example_image, example_mask] ! 0)
          (pil_resize example_pil (([example_image, example_mask] @ [[example_image, example_mask] ! 0]) ! 1)
             (isize (([example_image, example_mask] @ [[example_image, example_mask] ! 0]) ! 0)))
        = Inr ([example_image, example_mask,
          \<lparr>isize = (1, 1), bands = [[10], [20], [30], [200]]\<rparr>, example_mask,
          \<lparr>isize = (1, 1), bands = [[10], [20], [30], [255]]\<rparr>,
          example_image, example_image, example_mask, example_image] ! length [example_image, example_mask])"
    by blast+
  from 1(2) have 2: "[example_image, example_mask,
          \<lparr>isize = (1, 1), bands = [[10], [20], [30], [200]]\<rparr>, example_mask,
          \<lparr>isize = (1, 1), bands = [[10], [20], [30], [255]]\<rparr>,
          example_image, example_image, example_mask, example_image] ! length [example_image, example_mask] = \<lparr>isize = (1, 1), bands = [[10], [20], [30], [200]]\<rparr>"
    by (simp add: putalpha_def)
  from t example_clean_some p0 have 3: "[\<lparr>isize = (1, 1), bands = [[10], [20], [30], [200]]\<rparr>, \<lparr>isize = (1, 1), bands = [[10], [20], [30], [255]]\<rparr>] ! 0 = [\<lparr>isize = (1, 1), bands = [[10], [20], [30], [200]]\<rparr>] ! 0" by blast
  from t run have 4: "store_extends [example_image] h4"
       "\<forall>j < length [example_image]. h4 ! j = [example_image] ! j" by blast+
  from example_compose 1(1) 2 example_clean_some 3 example_clean_none run 4
  show ?thesis by blast
qed

subsection \<open>Claim C10: the record of an image without mask\<close>



end
